theory Spec2Isabelle
  imports Complex_Main "HOL-Library.AList"
begin

section \<open>Python values, exceptions and wire messages\<close>

text \<open>
  A Python \<open>str\<close> is a sequence of Unicode code points. The characters of an
  Isabelle \<open>string\<close> are bytes, so text is modelled as a list of code points;
  \<open>py\<close> embeds the ASCII literals of the source.
\<close>

type_synonym pystr = "nat list"

definition py :: "string \<Rightarrow> pystr" where
  "py s = map of_char s"

text \<open>
  The exceptions the module raises, catches or can receive from its collaborators. All
  of them are instances of \<open>Exception\<close>, so an \<open>except Exception\<close> clause
  catches every value of this type. Signals that derive from \<open>BaseException\<close>
  only (task cancellation, interpreter exit) are not failures of an operation and are
  outside the model. \<open>OtherError\<close> stands for an instance of any other class, tagged
  by its message.
\<close>

datatype exn =
    HTTPException (status_code: nat) (detail: pystr)
  | WebSocketDisconnect
  | TimeoutError
  | ValueError
  | KeyError
  | TypeError
  | OtherError pystr

text \<open>
  The JSON objects written to a socket, before serialisation:
  \<open>{"type": "progress", "progress": p, "message": s}\<close>,
  \<open>{"type": "error", "message": s}\<close> and \<open>{"type": "ping"}\<close>.
\<close>

datatype event =
    ProgressEvent real pystr
  | ErrorEvent pystr
  | PingEvent

section \<open>ConnectionManager\<close>

text \<open>
  A \<open>WebSocket\<close> object compares by identity; it is modelled by a handle.
  \<open>active_connections\<close> is a Python list: order and duplicates are kept.
\<close>

type_synonym websocket = nat

record ConnectionManager =
  active_connections :: "websocket list"

text \<open>
  \<open>connect\<close> awaits \<open>websocket.accept()\<close>, whose outcome is the parameter
  \<open>accept\<close> (\<open>None\<close> when the handshake succeeds), then appends.
\<close>

definition connect ::
  "websocket \<Rightarrow> exn option \<Rightarrow> ConnectionManager \<Rightarrow> (exn + unit) \<times> ConnectionManager" where
  "connect websocket accept m =
     (case accept of
        Some e \<Rightarrow> (Inl e, m)
      | None \<Rightarrow> (Inr (), m\<lparr>active_connections := active_connections m @ [websocket]\<rparr>))"

text \<open>
  \<open>disconnect\<close> is \<open>self.active_connections.remove(websocket)\<close>:
  \<open>list.remove\<close> deletes the first element equal to its argument and raises
  \<open>ValueError\<close> when there is none.
\<close>

definition disconnect ::
  "websocket \<Rightarrow> ConnectionManager \<Rightarrow> (exn + unit) \<times> ConnectionManager" where
  "disconnect websocket m =
     (if websocket \<in> set (active_connections m)
      then (Inr (), m\<lparr>active_connections := remove1 websocket (active_connections m)\<rparr>)
      else (Inl ValueError, m))"

text \<open>
  \<open>broadcast\<close> suspends at every \<open>await connection.send_text(message)\<close>. While it
  is suspended the event loop runs other tasks, and the socket handlers among them
  register and unregister sessions. \<open>other_task\<close> is one such step of another task;
  an exception it raises stays in that task, only its effect on the registry is seen
  here.
\<close>

datatype other_task = Registers websocket | Unregisters websocket

fun run_other :: "other_task \<Rightarrow> ConnectionManager \<Rightarrow> ConnectionManager" where
  "run_other (Registers w) m = snd (connect w None m)"
| "run_other (Unregisters w) m = snd (disconnect w m)"

text \<open>
  The loop \<open>for connection in self.active_connections\<close> runs a list iterator over
  the live list: the iterator holds a position \<open>i\<close>, and each round reads the
  element at \<open>i\<close> of the list as it is then, stopping when \<open>i\<close> has reached its
  length. \<open>send_text\<close> gives the outcome of a send (\<open>None\<close> when it succeeds);
  \<open>sched\<close> lists, for each successive suspension, the steps other tasks take during
  it (none once the list is used up). \<open>got\<close> collects the sessions the message was
  delivered to. The \<open>except Exception: pass\<close> clause discards a failed send.
\<close>

function broadcast_loop ::
  "(websocket \<Rightarrow> 'm \<Rightarrow> exn option) \<Rightarrow> other_task list list \<Rightarrow> 'm \<Rightarrow> nat \<Rightarrow>
   websocket list \<Rightarrow> ConnectionManager \<Rightarrow> (exn + unit) \<times> websocket list \<times> ConnectionManager" where
  "broadcast_loop send_text sched message i got m =
     (if i < length (active_connections m) then
        let connection = active_connections m ! i;
            outcome = send_text connection message;
            m' = (case sched of [] \<Rightarrow> m | steps # _ \<Rightarrow> fold run_other steps m);
            got' = (case outcome of None \<Rightarrow> got @ [connection] | Some e \<Rightarrow> got)
        in broadcast_loop send_text (tl sched) message (Suc i) got' m'
      else (Inr (), got, m))"
  by pat_completeness auto

lemma length_run_other:
  "length (active_connections (run_other s m)) \<le> Suc (length (active_connections m))"
proof (cases s)
  case (Registers w)
  then show ?thesis by (simp add: connect_def)
next
  case (Unregisters w)
  have "length (remove1 w (active_connections m)) \<le> length (active_connections m)"
    by (simp add: length_remove1)
  with Unregisters show ?thesis by (simp add: disconnect_def)
qed

lemma length_fold_run_other:
  "length (active_connections (fold run_other steps m))
     \<le> length (active_connections m) + length steps"
proof (induction steps arbitrary: m)
  case Nil
  show ?case by simp
next
  case (Cons s steps)
  have "length (active_connections (fold run_other steps (run_other s m)))
          \<le> length (active_connections (run_other s m)) + length steps"
    by (rule Cons.IH)
  also have "\<dots> \<le> Suc (length (active_connections m)) + length steps"
    using length_run_other [of s m] by simp
  finally show ?case by simp
qed

termination broadcast_loop
proof (relation "measure (\<lambda>(send_text, sched, message, i, got, m).
         length (concat sched) + length (active_connections m) - i)")
  show "wf (measure (\<lambda>(send_text :: websocket \<Rightarrow> 'm \<Rightarrow> exn option, sched, message :: 'm, i, got :: websocket list, m).
         length (concat sched) + length (active_connections m) - i))"
    by simp
next
  fix send_text :: "websocket \<Rightarrow> 'm \<Rightarrow> exn option" and sched :: "other_task list list"
    and message :: 'm and i :: nat and got :: "websocket list" and m :: ConnectionManager
    and connection outcome m' got'
  assume lt: "i < length (active_connections m)"
    and m': "m' = (case sched of [] \<Rightarrow> m | steps # _ \<Rightarrow> fold run_other steps m)"
  have "length (concat (tl sched)) + length (active_connections m')
          \<le> length (concat sched) + length (active_connections m)"
  proof (cases sched)
    case Nil
    with m' show ?thesis by simp
  next
    case (Cons steps rest)
    with m' length_fold_run_other [of steps m] show ?thesis by simp
  qed
  with lt show "((send_text, tl sched, message, Suc i, got', m'), (send_text, sched, message, i, got, m))
      \<in> measure (\<lambda>(send_text, sched, message, i, got, m).
           length (concat sched) + length (active_connections m) - i)"
    by simp
qed

declare broadcast_loop.simps [simp del]

definition broadcast ::
  "(websocket \<Rightarrow> 'm \<Rightarrow> exn option) \<Rightarrow> other_task list list \<Rightarrow> 'm \<Rightarrow> ConnectionManager \<Rightarrow>
   (exn + unit) \<times> websocket list \<times> ConnectionManager" where
  "broadcast send_text sched message m = broadcast_loop send_text sched message 0 [] m"


section \<open>The socket endpoint\<close>

text \<open>
  One round of the \<open>while True\<close> loop of \<open>websocket_endpoint\<close>: the outcome of
  \<open>await asyncio.wait_for(websocket.receive_text(), timeout=30)\<close> (a text, or the
  exception raised; \<open>TimeoutError\<close> when the 30 seconds pass), and the outcome of the
  ping \<open>send_text\<close>, consulted only when the round timed out.
\<close>

type_synonym round = "(exn + pystr) \<times> exn option"

text \<open>
  The loop never ends by itself. Run on the rounds that have happened so far, it gives
  \<open>None\<close> when the handler is still suspended in the next receive, and the exception
  that left the loop otherwise, with the pings sent. An exception raised by the ping
  is raised inside the \<open>except asyncio.TimeoutError\<close> handler and leaves the loop.
\<close>

fun receive_loop :: "round list \<Rightarrow> event list \<Rightarrow> exn option \<times> event list" where
  "receive_loop [] pings = (None, pings)"
| "receive_loop ((Inr text, ping) # rounds) pings = receive_loop rounds pings"
| "receive_loop ((Inl e, ping) # rounds) pings =
     (if e = TimeoutError then
        (case ping of
           None \<Rightarrow> receive_loop rounds (pings @ [PingEvent])
         | Some e' \<Rightarrow> (Some e', pings))
      else (Some e, pings))"

datatype handler = Waiting | Returned | Raised exn

text \<open>
  \<open>websocket_endpoint\<close>: register, loop, and unregister in the
  \<open>except WebSocketDisconnect\<close> clause, the only one of the outer \<open>try\<close>.
  \<open>others\<close> are the steps other tasks take on the registry while this handler is
  in its loop.
\<close>

definition websocket_endpoint ::
  "websocket \<Rightarrow> exn option \<Rightarrow> round list \<Rightarrow> other_task list \<Rightarrow> ConnectionManager \<Rightarrow>
   handler \<times> event list \<times> ConnectionManager" where
  "websocket_endpoint websocket accept rounds others m =
     (case connect websocket accept m of
        (Inl e, m1) \<Rightarrow> (Raised e, [], m1)
      | (Inr u, m1) \<Rightarrow>
          (let m2 = fold run_other others m1 in
           case receive_loop rounds [] of
             (None, pings) \<Rightarrow> (Waiting, pings, m2)
           | (Some e, pings) \<Rightarrow>
               (if e = WebSocketDisconnect then
                  (case disconnect websocket m2 of
                     (Inl e', m3) \<Rightarrow> (Raised e', pings, m3)
                   | (Inr u, m3) \<Rightarrow> (Returned, pings, m3))
                else (Raised e, pings, m2))))"

section \<open>Settings objects\<close>

text \<open>
  \<open>DEFAULT_SETTINGS\<close> is defined in the \<open>DEEPSEARCH\<close> module; this module
  reads and writes it as a dict of dicts, \<open>settings[group][key]\<close>. The request
  handler mutates such dicts in place after a \<open>deepcopy\<close>, so the dict objects live
  in a store: \<open>dicts\<close> holds the outer dict objects and \<open>groups\<close> the inner ones,
  both by address, and \<open>next_addr\<close> is the next unused address (every address
  below it is an allocated object). A dict is an association list in insertion order.
  The value under an outer key is a reference to an inner dict or any other value;
  the values of an inner dict are never touched by this module beyond being copied,
  and are plain values here. \<open>PyObject\<close> stands for a value of any other type (a
  float, a list), which this module never looks into, by a tag.
\<close>

type_synonym addr = nat

datatype pyval = PyNone | PyBool bool | PyInt int | PyStr pystr | PyObject nat

datatype entry = Plain pyval | Group addr

text \<open>What a collaborator sees when it is handed a settings object: its contents.\<close>

type_synonym settings_value = "(string \<times> (pyval + (string \<times> pyval) list)) list"

section \<open>Requests, responses and the state of the module\<close>

record RefineRequest =
  manuscriptText :: pystr
  maxResults :: "int option"
  noCache :: "bool option"

record RefineResponse =
  processedText :: pystr
  bibliographyText :: pystr
  bibtex :: pystr

text \<open>
  A \<open>DocumentRefiner\<close> is built per request from the settings, a fresh
  \<open>BroadcastingView\<close> (which has no fields) and the NLP processor.
\<close>

record 'e refiner =
  refiner_settings :: settings_value
  refiner_nlp_processor :: 'e

text \<open>
  The mutable state the request handler works on: the store of dict objects, the
  module global \<open>nlp_processor\<close> (\<open>None\<close> until a processor is built), and the
  broadcasts handed to \<open>asyncio.create_task\<close>, in order. A scheduled broadcast
  runs later, when the handler is suspended.
\<close>

record 'e state =
  dicts :: "addr \<Rightarrow> (string \<times> entry) list"
  groups :: "addr \<Rightarrow> (string \<times> pyval) list"
  next_addr :: addr
  nlp_processor :: "'e option"
  tasks :: "event list"

text \<open>
  What lies outside this module, as it behaves during one request: the address of
  \<open>DEFAULT_SETTINGS\<close>; the constructors \<open>NLPProcessor(settings)\<close> and
  \<open>DocumentRefiner(settings, view, nlp_processor=...)\<close> and the three methods of a
  refiner, each of which may raise; \<open>asyncio.create_task\<close>, which gives \<open>None\<close>
  when it has scheduled the coroutine; and \<open>str(e)\<close> on an exception. The
  collaborators are functions of the contents of the settings they are handed and do
  not write to them.
\<close>

record 'e env =
  DEFAULT_SETTINGS :: addr
  NLPProcessor :: "settings_value \<Rightarrow> exn + 'e"
  DocumentRefiner :: "settings_value \<Rightarrow> 'e \<Rightarrow> exn option"
  refine_document :: "'e refiner \<Rightarrow> pystr \<Rightarrow> exn + pystr"
  generate_bibliography_text :: "'e refiner \<Rightarrow> exn + pystr"
  generate_bibtex_content :: "'e refiner \<Rightarrow> exn + pystr"
  create_task :: "event \<Rightarrow> exn option"
  str_exn :: "exn \<Rightarrow> pystr"

definition entry_value :: "(addr \<Rightarrow> (string \<times> pyval) list) \<Rightarrow> entry \<Rightarrow> pyval + (string \<times> pyval) list" where
  "entry_value g x = (case x of Plain v \<Rightarrow> Inl v | Group a \<Rightarrow> Inr (g a))"

definition read_entries ::
  "(addr \<Rightarrow> (string \<times> pyval) list) \<Rightarrow> (string \<times> entry) list \<Rightarrow> settings_value" where
  "read_entries g es = map (\<lambda>(k, x). (k, entry_value g x)) es"

definition read_settings :: "'e state \<Rightarrow> addr \<Rightarrow> settings_value" where
  "read_settings st d = read_entries (groups st) (dicts st d)"

text \<open>
  \<open>copy.deepcopy\<close> of a settings object. Plain values are taken as they are. An
  inner dict is copied into a new object, unless the memo already holds the copy of
  that very object, which is then used again (so sharing inside the original is kept
  in the copy). The outer dict is a new object too.
\<close>

fun copy_entries ::
  "(string \<times> entry) list \<Rightarrow> (addr \<times> addr) list \<Rightarrow> 'e state \<Rightarrow>
   (string \<times> entry) list \<times> (addr \<times> addr) list \<times> 'e state" where
  "copy_entries [] memo st = ([], memo, st)"
| "copy_entries ((k, Plain v) # es) memo st =
     (case copy_entries es memo st of
        (es', memo', st') \<Rightarrow> ((k, Plain v) # es', memo', st'))"
| "copy_entries ((k, Group a) # es) memo st =
     (case map_of memo a of
        Some a' \<Rightarrow>
          (case copy_entries es memo st of
             (es', memo', st') \<Rightarrow> ((k, Group a') # es', memo', st'))
      | None \<Rightarrow>
          (let a' = next_addr st;
               st1 = st\<lparr>groups := (groups st)(a' := groups st a), next_addr := Suc a'\<rparr>
           in case copy_entries es ((a, a') # memo) st1 of
                (es', memo', st') \<Rightarrow> ((k, Group a') # es', memo', st')))"

definition deepcopy :: "addr \<Rightarrow> 'e state \<Rightarrow> addr \<times> 'e state" where
  "deepcopy d st =
     (case copy_entries (dicts st d) [] st of
        (es, memo, st1) \<Rightarrow>
          (next_addr st1,
           st1\<lparr>dicts := (dicts st1)(next_addr st1 := es), next_addr := Suc (next_addr st1)\<rparr>))"

text \<open>
  \<open>settings[k1][k2] = v\<close>: \<open>KeyError\<close> when the outer dict has no key \<open>k1\<close>,
  \<open>TypeError\<close> when the value under \<open>k1\<close> is not a dict; otherwise the inner dict
  object is updated in place (the key keeps its position, a new key goes last).
\<close>

definition setitem2 ::
  "addr \<Rightarrow> string \<Rightarrow> string \<Rightarrow> pyval \<Rightarrow> 'e state \<Rightarrow> (exn + unit) \<times> 'e state" where
  "setitem2 d k1 k2 v st =
     (case map_of (dicts st d) k1 of
        None \<Rightarrow> (Inl KeyError, st)
      | Some (Plain x) \<Rightarrow> (Inl TypeError, st)
      | Some (Group a) \<Rightarrow>
          (Inr (), st\<lparr>groups := (groups st)(a := AList.update k2 v (groups st a))\<rparr>))"

text \<open>\<open>try: ... except Exception: pass\<close> around a statement: the exception is dropped.\<close>

definition try_pass :: "(exn + unit) \<times> 's \<Rightarrow> 's" where
  "try_pass r = (case r of (Inl e, s) \<Rightarrow> s | (Inr u, s) \<Rightarrow> s)"

section \<open>The view\<close>

text \<open>
  Both methods of \<open>BroadcastingView\<close> call
  \<open>asyncio.create_task(manager.broadcast(json.dumps(...)))\<close>.
\<close>

definition schedule_broadcast :: "'e env \<Rightarrow> event \<Rightarrow> 'e state \<Rightarrow> (exn + unit) \<times> 'e state" where
  "schedule_broadcast env ev st =
     (case create_task env ev of
        Some e \<Rightarrow> (Inl e, st)
      | None \<Rightarrow> (Inr (), st\<lparr>tasks := tasks st @ [ev]\<rparr>))"

definition show_error :: "'e env \<Rightarrow> pystr \<Rightarrow> 'e state \<Rightarrow> (exn + unit) \<times> 'e state" where
  "show_error env msg st = schedule_broadcast env (ErrorEvent msg) st"

definition update_progress ::
  "'e env \<Rightarrow> real \<Rightarrow> pystr \<Rightarrow> 'e state \<Rightarrow> (exn + unit) \<times> 'e state" where
  "update_progress env percent status st = schedule_broadcast env (ProgressEvent percent status) st"

section \<open>The refine endpoint\<close>

text \<open>
  \<open>str.strip()\<close> removes leading and trailing whitespace, the characters for which
  \<open>str.isspace\<close> holds: the ASCII controls 9 to 13 and 28 to 31, the space, U+0085,
  U+00A0, U+1680, U+2000 to U+200A, U+2028, U+2029, U+202F, U+205F and U+3000.
\<close>

definition isspace :: "nat \<Rightarrow> bool" where
  "isspace c \<longleftrightarrow>
     (9 \<le> c \<and> c \<le> 13) \<or> (28 \<le> c \<and> c \<le> 32) \<or> c = 133 \<or> c = 160 \<or> c = 5760 \<or>
     (8192 \<le> c \<and> c \<le> 8202) \<or> c = 8232 \<or> c = 8233 \<or> c = 8239 \<or> c = 8287 \<or> c = 12288"

definition strip :: "pystr \<Rightarrow> pystr" where
  "strip t = rev (dropWhile isspace (rev (dropWhile isspace t)))"

text \<open>\<open>settings = settings or DEFAULT_SETTINGS\<close>: \<open>None\<close> and the empty dict are false.\<close>

definition settings_or_default :: "'e env \<Rightarrow> addr option \<Rightarrow> 'e state \<Rightarrow> addr" where
  "settings_or_default env settings st =
     (case settings of
        None \<Rightarrow> DEFAULT_SETTINGS env
      | Some d \<Rightarrow> if dicts st d = [] then DEFAULT_SETTINGS env else d)"

definition get_refiner ::
  "'e env \<Rightarrow> addr option \<Rightarrow> 'e state \<Rightarrow> (exn + 'e refiner) \<times> 'e state" where
  "get_refiner env settings st =
     (let sv = read_settings st (settings_or_default env settings st) in
      case nlp_processor st of
        None \<Rightarrow>
          (case NLPProcessor env sv of
             Inl e \<Rightarrow>
               (Inl (HTTPException 503 (py ''NLP processor unavailable: '' @ str_exn env e)), st)
           | Inr processor \<Rightarrow>
               (case DocumentRefiner env sv processor of
                  Some e \<Rightarrow> (Inl e, st\<lparr>nlp_processor := Some processor\<rparr>)
                | None \<Rightarrow>
                    (Inr \<lparr>refiner_settings = sv, refiner_nlp_processor = processor\<rparr>,
                     st\<lparr>nlp_processor := Some processor\<rparr>)))
      | Some processor \<Rightarrow>
          (case DocumentRefiner env sv processor of
             Some e \<Rightarrow> (Inl e, st)
           | None \<Rightarrow> (Inr \<lparr>refiner_settings = sv, refiner_nlp_processor = processor\<rparr>, st)))"

text \<open>
  Lines 128 to 138 of \<open>refine\<close>: the copy of the defaults and the two overrides, each
  in its own \<open>try ... except Exception: pass\<close>. \<open>maxResults\<close> is an \<open>int\<close> or
  \<open>None\<close> and \<open>noCache\<close> a \<open>bool\<close> or \<open>None\<close> by the request's schema, which
  is what the two \<open>isinstance\<close> tests ask.
\<close>

definition request_settings :: "'e env \<Rightarrow> RefineRequest \<Rightarrow> 'e state \<Rightarrow> addr \<times> 'e state" where
  "request_settings env req st =
     (case deepcopy (DEFAULT_SETTINGS env) st of
        (settings, st1) \<Rightarrow>
          (let st2 = (case maxResults req of
                        Some n \<Rightarrow>
                          if 0 < n
                          then try_pass (setitem2 settings ''search_settings'' ''max_results'' (PyInt n) st1)
                          else st1
                      | None \<Rightarrow> st1);
               st3 = (case noCache req of
                        Some b \<Rightarrow>
                          if b
                          then try_pass (setitem2 settings ''privacy_settings'' ''cache_enabled'' (PyBool False) st2)
                          else st2
                      | None \<Rightarrow> st2)
           in (settings, st3)))"

text \<open>
  The body of the \<open>try\<close> of \<open>refine\<close> (lines 141 to 151): the first statement that
  raises ends it.
\<close>

definition stages ::
  "'e env \<Rightarrow> 'e refiner \<Rightarrow> RefineRequest \<Rightarrow> 'e state \<Rightarrow> (exn + RefineResponse) \<times> 'e state" where
  "stages env refiner req st =
     (case update_progress env 0 (py ''Starting DeepSearch refinement...'') st of
        (Inl e, st1) \<Rightarrow> (Inl e, st1)
      | (Inr u, st1) \<Rightarrow>
     (case refine_document env refiner (manuscriptText req) of
        Inl e \<Rightarrow> (Inl e, st1)
      | Inr processed \<Rightarrow>
     (case update_progress env 0.98 (py ''Generating bibliography and BibTeX...'') st1 of
        (Inl e, st2) \<Rightarrow> (Inl e, st2)
      | (Inr u, st2) \<Rightarrow>
     (case generate_bibliography_text env refiner of
        Inl e \<Rightarrow> (Inl e, st2)
      | Inr bibliography_text \<Rightarrow>
     (case generate_bibtex_content env refiner of
        Inl e \<Rightarrow> (Inl e, st2)
      | Inr bibtex_content \<Rightarrow>
     (case update_progress env 1 (py ''DeepSearch complete'') st2 of
        (Inl e, st3) \<Rightarrow> (Inl e, st3)
      | (Inr u, st3) \<Rightarrow>
          (Inr \<lparr>processedText = processed, bibliographyText = bibliography_text,
                bibtex = bibtex_content\<rparr>, st3)))))))"

text \<open>
  The \<open>try\<close> statement of \<open>refine\<close> with its two clauses (lines 140 to 159):
  \<open>except HTTPException: raise\<close>, then \<open>except Exception as e\<close>, which tries
  \<open>show_error\<close> inside a \<open>try ... except Exception: pass\<close> and raises
  \<open>HTTPException(status_code=500, detail=str(e))\<close>.
\<close>

definition run_stages ::
  "'e env \<Rightarrow> 'e refiner \<Rightarrow> RefineRequest \<Rightarrow> 'e state \<Rightarrow> (exn + RefineResponse) \<times> 'e state" where
  "run_stages env refiner req st =
     (case stages env refiner req st of
        (Inr response, st') \<Rightarrow> (Inr response, st')
      | (Inl e, st') \<Rightarrow>
          (case e of
             HTTPException code d \<Rightarrow> (Inl e, st')
           | _ \<Rightarrow>
               (Inl (HTTPException 500 (str_exn env e)),
                try_pass (show_error env (py ''Refinement failed: '' @ str_exn env e) st'))))"

definition refine ::
  "'e env \<Rightarrow> RefineRequest \<Rightarrow> 'e state \<Rightarrow> (exn + RefineResponse) \<times> 'e state" where
  "refine env req st =
     (if manuscriptText req = [] \<or> strip (manuscriptText req) = [] then
        (Inr \<lparr>processedText = [], bibliographyText = [], bibtex = []\<rparr>, st)
      else
        (case request_settings env req st of
           (settings, st1) \<Rightarrow>
             (case get_refiner env (Some settings) st1 of
                (Inl e, st2) \<Rightarrow> (Inl e, st2)
              | (Inr refiner, st2) \<Rightarrow> run_stages env refiner req st2)))"

text \<open>
  The settings of a request in the words of the specification: the defaults
  with \<open>max_results\<close> replaced when \<open>maxResults\<close> is a positive integer and
  \<open>cache_enabled\<close> set to false when \<open>noCache\<close> is true. \<open>with_override\<close>
  replaces one value inside one group of a settings value.
\<close>

definition with_override :: "string \<Rightarrow> string \<Rightarrow> pyval \<Rightarrow> settings_value \<Rightarrow> settings_value" where
  "with_override k1 k2 v sv = AList.map_entry k1 (map_sum id (AList.update k2 v)) sv"

definition expected_settings :: "RefineRequest \<Rightarrow> settings_value \<Rightarrow> settings_value" where
  "expected_settings req defaults =
     (let s1 = (case maxResults req of
                  Some n \<Rightarrow>
                    if 0 < n then with_override ''search_settings'' ''max_results'' (PyInt n) defaults
                    else defaults
                | None \<Rightarrow> defaults)
      in if noCache req = Some True
         then with_override ''privacy_settings'' ''cache_enabled'' (PyBool False) s1
         else s1)"

text \<open>
  \<open>settings[k1][k2]\<close> read off a settings value (\<open>None\<close> when a key is
  missing or the value under \<open>k1\<close> is not a dict).
\<close>

definition lookup2 :: "settings_value \<Rightarrow> string \<Rightarrow> string \<Rightarrow> pyval option" where
  "lookup2 sv k1 k2 =
     (case map_of sv k1 of
        Some (Inr g) \<Rightarrow> map_of g k2
      | _ \<Rightarrow> None)"

text \<open>
  The settings \<open>refine\<close> hands to \<open>get_refiner\<close>, as \<open>get_refiner\<close> passes them
  on to the two constructors.
\<close>

definition job_settings :: "'e env \<Rightarrow> RefineRequest \<Rightarrow> 'e state \<Rightarrow> settings_value" where
  "job_settings env req st =
     (case request_settings env req st of
        (settings, st1) \<Rightarrow> read_settings st1 (settings_or_default env (Some settings) st1))"

text \<open>
  Lines 128 to 139 of \<open>refine\<close> together: the settings of the request, then
  \<open>get_refiner\<close> on them.
\<close>

definition acquire_refiner ::
  "'e env \<Rightarrow> RefineRequest \<Rightarrow> 'e state \<Rightarrow> (exn + 'e refiner) \<times> 'e state" where
  "acquire_refiner env req st =
     (case request_settings env req st of
        (settings, st1) \<Rightarrow> get_refiner env (Some settings) st1)"

text \<open>The addresses of the inner dicts an outer dict refers to.\<close>

fun group_addrs :: "(string \<times> entry) list \<Rightarrow> addr list" where
  "group_addrs [] = []"
| "group_addrs ((k, Plain v) # es) = group_addrs es"
| "group_addrs ((k, Group a) # es) = a # group_addrs es"

text \<open>
  The defaults are a well-formed object of the store: the outer dict and the inner
  dicts it refers to are allocated, and no inner dict is referred to twice.
\<close>

definition defaults_allocated :: "'e env \<Rightarrow> 'e state \<Rightarrow> bool" where
  "defaults_allocated env st \<longleftrightarrow>
     DEFAULT_SETTINGS env < next_addr st \<and>
     list_all (\<lambda>a. a < next_addr st) (group_addrs (dicts st (DEFAULT_SETTINGS env)))"

definition defaults_unshared :: "'e env \<Rightarrow> 'e state \<Rightarrow> bool" where
  "defaults_unshared env st \<longleftrightarrow> distinct (group_addrs (dicts st (DEFAULT_SETTINGS env)))"

text \<open>
  Requests served one after the other, each with the collaborators as they behave
  during it.
\<close>

fun serve :: "('e env \<times> RefineRequest) list \<Rightarrow> 'e state \<Rightarrow> 'e state" where
  "serve [] st = st"
| "serve ((env, req) # rest) st = serve rest (snd (refine env req st))"

fun is_HTTPException :: "exn \<Rightarrow> bool" where
  "is_HTTPException (HTTPException code d) = True"
| "is_HTTPException e = False"

text \<open>
  A concrete store and concrete collaborators, on which the properties below are
  instantiated. The defaults sit at address 0, with the group \<open>search_settings\<close>
  at address 1 and the group \<open>privacy_settings\<close> at address 2. The sample
  \<open>NLPProcessor\<close> returns the settings it was built from, so that the processor
  shows what it was built with; \<open>str\<close> of an exception is its message.
\<close>

definition sample_state :: "settings_value state" where
  "sample_state =
     \<lparr>dicts = (\<lambda>a. if a = 0
                    then [(''search_settings'', Group 1), (''privacy_settings'', Group 2),
                          (''version'', Plain (PyInt 1))]
                    else []),
      groups = (\<lambda>a. if a = 1 then [(''max_results'', PyInt 20), (''timeout'', PyInt 30)]
                     else if a = 2 then [(''cache_enabled'', PyBool True)]
                     else []),
      next_addr = 3,
      nlp_processor = None,
      tasks = []\<rparr>"

definition sample_env :: "settings_value env" where
  "sample_env =
     \<lparr>DEFAULT_SETTINGS = 0,
      NLPProcessor = (\<lambda>sv. Inr sv),
      DocumentRefiner = (\<lambda>sv processor. None),
      refine_document = (\<lambda>r t. Inr (t @ py ''.'')),
      generate_bibliography_text = (\<lambda>r. Inr (py ''[1]'')),
      generate_bibtex_content = (\<lambda>r. Inr (py ''@article'')),
      create_task = (\<lambda>ev. None),
      str_exn = (\<lambda>e. case e of OtherError msg \<Rightarrow> msg | _ \<Rightarrow> [])\<rparr>"

text \<open>
  Two predicates on the steps of other tasks, used to state the properties below: a
  schedule in which sessions register only, and a step that names a given session.
\<close>

fun is_register :: "other_task \<Rightarrow> bool" where
  "is_register (Registers w) = True"
| "is_register (Unregisters w) = False"

definition only_registers :: "other_task list list \<Rightarrow> bool" where
  "only_registers sched = list_all (list_all is_register) sched"

text \<open>The session a step of another task registers or unregisters.\<close>

fun session_of :: "other_task \<Rightarrow> websocket" where
  "session_of (Registers w) = w"
| "session_of (Unregisters w) = w"

fun concerns :: "websocket \<Rightarrow> other_task \<Rightarrow> bool" where
  "concerns websocket (Registers w) = (w = websocket)"
| "concerns websocket (Unregisters w) = (w = websocket)"

section \<open>Properties of the registry\<close>

lemma count_list_remove1:
  "count_list (remove1 x xs) y =
     (if x = y \<and> x \<in> set xs then count_list xs y - 1 else count_list xs y)"
  by (induction xs) auto

lemma count_list_pos_iff: "0 < count_list xs x \<longleftrightarrow> x \<in> set xs"
  by (induction xs) auto

lemma remove1_first_occurrence:
  assumes "x \<in> set xs"
  shows "\<exists>pre post. xs = pre @ x # post \<and> x \<notin> set pre \<and> remove1 x xs = pre @ post"
proof -
  from split_list_first [OF assms] obtain pre post where
    xs: "xs = pre @ x # post" and pre: "x \<notin> set pre"
    by blast
  have "remove1 x xs = pre @ post"
    using pre by (simp add: xs remove1_append)
  with xs pre show ?thesis by blast
qed

text \<open>
  C2 (as the code has it). \<open>disconnect\<close> of a registered session returns normally
  and removes its first occurrence: the entries before it and after it stay as they
  are, in order, so exactly one occurrence goes and every other session keeps its
  entries. For a session that is not registered it raises \<open>ValueError\<close> and leaves
  the registry unchanged; so a second \<open>disconnect\<close> of a session registered once
  raises. In no case is more than one occurrence removed.
\<close>

theorem disconnect_removes_one_or_raises:
  "(websocket \<in> set (active_connections m) \<longrightarrow>
      fst (disconnect websocket m) = Inr () \<and>
      (\<exists>pre post. active_connections m = pre @ websocket # post \<and> websocket \<notin> set pre \<and>
                  snd (disconnect websocket m) = m\<lparr>active_connections := pre @ post\<rparr>) \<and>
      Suc (count_list (active_connections (snd (disconnect websocket m))) websocket)
        = count_list (active_connections m) websocket) \<and>
   (websocket \<notin> set (active_connections m) \<longrightarrow>
      disconnect websocket m = (Inl ValueError, m)) \<and>
   (count_list (active_connections m) websocket = 1 \<longrightarrow>
      disconnect websocket (snd (disconnect websocket m))
        = (Inl ValueError, snd (disconnect websocket m))) \<and>
   count_list (active_connections m) websocket
     \<le> Suc (count_list (active_connections (snd (disconnect websocket m))) websocket) \<and>
   (\<forall>w. w \<noteq> websocket \<longrightarrow>
      count_list (active_connections (snd (disconnect websocket m))) w
        = count_list (active_connections m) w)"
proof -
  have pos: "websocket \<in> set (active_connections m) \<Longrightarrow>
               0 < count_list (active_connections m) websocket"
    by (simp add: count_list_pos_iff)
  have once: "count_list (active_connections m) websocket = 1 \<Longrightarrow>
                websocket \<in> set (active_connections m) \<and>
                websocket \<notin> set (remove1 websocket (active_connections m))"
  proof -
    assume one: "count_list (active_connections m) websocket = 1"
    then have mem: "websocket \<in> set (active_connections m)"
      using count_list_pos_iff [of "active_connections m" websocket] by simp
    have "count_list (remove1 websocket (active_connections m)) websocket = 0"
      using one mem by (simp add: count_list_remove1)
    then have "websocket \<notin> set (remove1 websocket (active_connections m))"
      using count_list_pos_iff [of "remove1 websocket (active_connections m)" websocket] by simp
    with mem show ?thesis by simp
  qed
  have first: "\<exists>pre post. active_connections m = pre @ websocket # post \<and> websocket \<notin> set pre \<and>
                  snd (disconnect websocket m) = m\<lparr>active_connections := pre @ post\<rparr>"
    if mem: "websocket \<in> set (active_connections m)"
  proof -
    from remove1_first_occurrence [OF mem] obtain pre post where
      "active_connections m = pre @ websocket # post" "websocket \<notin> set pre"
      "remove1 websocket (active_connections m) = pre @ post"
      by blast
    then show ?thesis using mem by (auto simp: disconnect_def)
  qed
  have rest: "(websocket \<in> set (active_connections m) \<longrightarrow>
      fst (disconnect websocket m) = Inr () \<and>
      Suc (count_list (active_connections (snd (disconnect websocket m))) websocket)
        = count_list (active_connections m) websocket) \<and>
   (websocket \<notin> set (active_connections m) \<longrightarrow>
      disconnect websocket m = (Inl ValueError, m)) \<and>
   (count_list (active_connections m) websocket = 1 \<longrightarrow>
      disconnect websocket (snd (disconnect websocket m))
        = (Inl ValueError, snd (disconnect websocket m))) \<and>
   count_list (active_connections m) websocket
     \<le> Suc (count_list (active_connections (snd (disconnect websocket m))) websocket) \<and>
   (\<forall>w. w \<noteq> websocket \<longrightarrow>
      count_list (active_connections (snd (disconnect websocket m))) w
        = count_list (active_connections m) w)"
    using pos once by (auto simp: disconnect_def count_list_remove1)
  show ?thesis
    using first rest by blast
qed

theorem disconnect_removes_one_or_raises_witness:
  "disconnect 1 \<lparr>active_connections = [1, 2, 1]\<rparr> = (Inr (), \<lparr>active_connections = [2, 1]\<rparr>) \<and>
   disconnect 3 \<lparr>active_connections = [1, 2, 1]\<rparr> = (Inl ValueError, \<lparr>active_connections = [1, 2, 1]\<rparr>) \<and>
   disconnect 2 (snd (disconnect 2 \<lparr>active_connections = [1, 2, 1]\<rparr>))
     = (Inl ValueError, \<lparr>active_connections = [1, 1]\<rparr>)"
proof -
  have mem: "1 \<in> set (active_connections \<lparr>active_connections = [1, 2, 1]\<rparr>)" by simp
  from disconnect_removes_one_or_raises [of 1 "\<lparr>active_connections = [1, 2, 1]\<rparr>"] mem
  have "fst (disconnect 1 \<lparr>active_connections = [1, 2, 1]\<rparr>) = Inr ()" by blast
  then show ?thesis
    using disconnect_removes_one_or_raises [of 3 "\<lparr>active_connections = [1, 2, 1]\<rparr>"]
      disconnect_removes_one_or_raises [of 2 "\<lparr>active_connections = [1, 2, 1]\<rparr>"]
    by (simp add: disconnect_def)
qed

text \<open>
  C2 as stated fails: unregistering a session that is not registered raises, and so
  does the second of two calls in a row.
\<close>

theorem disconnect_unregistered_raises:
  "fst (disconnect 3 \<lparr>active_connections = [1, 2]\<rparr>) = Inl ValueError \<and>
   fst (disconnect 1 \<lparr>active_connections = [1, 2]\<rparr>) = Inr () \<and>
   fst (disconnect 1 (snd (disconnect 1 \<lparr>active_connections = [1, 2]\<rparr>))) = Inl ValueError"
  by (simp add: disconnect_def)


subsection \<open>The broadcast loop\<close>

lemma broadcast_loop_quiet:
  "broadcast_loop send_text [] message i got m =
     (Inr (), got @ filter (\<lambda>c. send_text c message = None) (drop i (active_connections m)), m)"
proof (induction "length (active_connections m) - i" arbitrary: i got)
  case 0
  then show ?case by (subst broadcast_loop.simps) simp
next
  case (Suc n)
  then have lt: "i < length (active_connections m)" and n: "n = length (active_connections m) - Suc i"
    by simp_all
  have d: "drop i (active_connections m) = active_connections m ! i # drop (Suc i) (active_connections m)"
    using lt by (simp add: Cons_nth_drop_Suc)
  show ?case
    by (subst broadcast_loop.simps) (simp add: lt Suc.hyps(1) [OF n] d Let_def split: option.split)
qed

lemma broadcast_loop_no_raise:
  "fst (broadcast_loop send_text sched message i got m) = Inr ()"
proof (induction send_text sched message i got m rule: broadcast_loop.induct)
  case (1 send_text sched message i got m)
  show ?case
  proof (cases "i < length (active_connections m)")
    case True
    then show ?thesis
      using "1.IH" by (subst broadcast_loop.simps) (simp add: Let_def)
  next
    case False
    then show ?thesis by (subst broadcast_loop.simps) simp
  qed
qed

lemma fold_registers_appends:
  "list_all is_register steps \<Longrightarrow>
     \<exists>extra. fold run_other steps m = m\<lparr>active_connections := active_connections m @ extra\<rparr>"
proof (induction steps arbitrary: m)
  case Nil
  have "m = m\<lparr>active_connections := active_connections m @ []\<rparr>" by simp
  then show ?case by (metis fold_simps(1))
next
  case (Cons s steps)
  then obtain w where s: "s = Registers w" by (cases s) simp_all
  from Cons obtain extra where
    "fold run_other steps (run_other s m)
       = (run_other s m)\<lparr>active_connections := active_connections (run_other s m) @ extra\<rparr>"
    by fastforce
  then have "fold run_other (s # steps) m = m\<lparr>active_connections := active_connections m @ (w # extra)\<rparr>"
    by (simp add: s connect_def)
  then show ?case by blast
qed

text \<open>
  When other tasks only register sessions, the live list only grows at its end: the
  loop visits every position of the list it started on, and then the new sessions.
\<close>

lemma broadcast_loop_registers:
  "only_registers sched \<Longrightarrow>
     \<exists>extra. broadcast_loop send_text sched message i got m =
       (Inr (),
        got @ filter (\<lambda>c. send_text c message = None) (drop i (active_connections m @ extra)),
        m\<lparr>active_connections := active_connections m @ extra\<rparr>)"
proof (induction send_text sched message i got m rule: broadcast_loop.induct)
  case (1 send_text sched message i got m)
  show ?case
  proof (cases "i < length (active_connections m)")
    case False
    have "broadcast_loop send_text sched message i got m = (Inr (), got, m)"
      using False by (subst broadcast_loop.simps) simp
    moreover have "m = m\<lparr>active_connections := active_connections m @ []\<rparr>" by simp
    moreover have "drop i (active_connections m @ []) = []" using False by simp
    ultimately show ?thesis by (metis append_Nil2 filter.simps(1))
  next
    case True
    define m' where "m' = (case sched of [] \<Rightarrow> m | steps # _ \<Rightarrow> fold run_other steps m)"
    define got' where "got' = (case send_text (active_connections m ! i) message of
                                 None \<Rightarrow> got @ [active_connections m ! i] | Some e \<Rightarrow> got)"
    have tl: "only_registers (tl sched)"
      using "1.prems" by (cases sched) (simp_all add: only_registers_def)
    obtain new where new: "m' = m\<lparr>active_connections := active_connections m @ new\<rparr>"
    proof (cases sched)
      case Nil
      then have "m' = m\<lparr>active_connections := active_connections m @ []\<rparr>"
        by (simp add: m'_def)
      then show ?thesis by (rule that)
    next
      case (Cons steps rest)
      then have "list_all is_register steps"
        using "1.prems" by (simp add: only_registers_def)
      from fold_registers_appends [OF this, of m] Cons show ?thesis
        by (auto simp: m'_def intro: that)
    qed
    from "1.IH" [OF True refl refl m'_def got'_def tl]
    obtain extra where ih: "broadcast_loop send_text (tl sched) message (Suc i) got' m' =
       (Inr (),
        got' @ filter (\<lambda>c. send_text c message = None) (drop (Suc i) (active_connections m' @ extra)),
        m'\<lparr>active_connections := active_connections m' @ extra\<rparr>)"
      by blast
    have step: "broadcast_loop send_text sched message i got m
                  = broadcast_loop send_text (tl sched) message (Suc i) got' m'"
      using True by (subst broadcast_loop.simps) (simp add: Let_def m'_def got'_def)
    have lt: "i < length (active_connections m @ new @ extra)" using True by simp
    have nth: "(active_connections m @ new @ extra) ! i = active_connections m ! i"
      using True by (simp add: nth_append)
    have d: "drop i (active_connections m @ new @ extra)
               = active_connections m ! i # drop (Suc i) (active_connections m @ new @ extra)"
      using Cons_nth_drop_Suc [OF lt] nth by simp
    have "broadcast_loop send_text sched message i got m =
       (Inr (),
        got @ filter (\<lambda>c. send_text c message = None) (drop i (active_connections m @ (new @ extra))),
        m\<lparr>active_connections := active_connections m @ (new @ extra)\<rparr>)"
      unfolding step ih d by (simp add: new got'_def split: option.split)
    then show ?thesis by blast
  qed
qed

lemma fold_registers_sessions:
  "list_all is_register steps \<Longrightarrow>
     fold run_other steps m = m\<lparr>active_connections := active_connections m @ map session_of steps\<rparr>"
proof (induction steps arbitrary: m)
  case Nil
  show ?case by simp
next
  case (Cons s steps)
  then obtain w where s: "s = Registers w" by (cases s) simp_all
  from Cons have "fold run_other steps (run_other s m)
       = (run_other s m)\<lparr>active_connections := active_connections (run_other s m) @ map session_of steps\<rparr>"
    by simp
  then show ?case by (simp add: s connect_def)
qed

lemma broadcast_loop_registers_exact:
  "only_registers sched \<Longrightarrow>
     \<exists>k. length (active_connections m) + length (concat (take k sched)) - i = k \<and>
       broadcast_loop send_text sched message i got m =
       (Inr (),
        got @ filter (\<lambda>c. send_text c message = None)
                (drop i (active_connections m @ map session_of (concat (take k sched)))),
        m\<lparr>active_connections := active_connections m @ map session_of (concat (take k sched))\<rparr>)"
proof (induction send_text sched message i got m rule: broadcast_loop.induct)
  case (1 send_text sched message i got m)
  show ?case
  proof (cases "i < length (active_connections m)")
    case False
    have "broadcast_loop send_text sched message i got m = (Inr (), got, m)"
      using False by (subst broadcast_loop.simps) simp
    then have "broadcast_loop send_text sched message i got m =
       (Inr (),
        got @ filter (\<lambda>c. send_text c message = None)
                (drop i (active_connections m @ map session_of (concat (take 0 sched)))),
        m\<lparr>active_connections := active_connections m @ map session_of (concat (take 0 sched))\<rparr>)"
      using False by simp
    moreover have "length (active_connections m) + length (concat (take 0 sched)) - i = 0"
      using False by simp
    ultimately show ?thesis by blast
  next
    case True
    define m' where "m' = (case sched of [] \<Rightarrow> m | steps # _ \<Rightarrow> fold run_other steps m)"
    define got' where "got' = (case send_text (active_connections m ! i) message of
                                 None \<Rightarrow> got @ [active_connections m ! i] | Some e \<Rightarrow> got)"
    define new where "new = map session_of (concat (take 1 sched))"
    have tl: "only_registers (tl sched)"
      using "1.prems" by (cases sched) (simp_all add: only_registers_def)
    have new: "m' = m\<lparr>active_connections := active_connections m @ new\<rparr>"
    proof (cases sched)
      case Nil
      then show ?thesis by (simp add: m'_def new_def)
    next
      case (Cons steps rest)
      then have "list_all is_register steps"
        using "1.prems" by (simp add: only_registers_def)
      from fold_registers_sessions [OF this, of m] Cons show ?thesis
        by (simp add: m'_def new_def)
    qed
    from "1.IH" [OF True refl refl m'_def got'_def tl]
    obtain k where k: "length (active_connections m') + length (concat (take k (tl sched))) - Suc i = k"
      and ih: "broadcast_loop send_text (tl sched) message (Suc i) got' m' =
       (Inr (),
        got' @ filter (\<lambda>c. send_text c message = None)
                 (drop (Suc i) (active_connections m' @ map session_of (concat (take k (tl sched))))),
        m'\<lparr>active_connections := active_connections m' @ map session_of (concat (take k (tl sched)))\<rparr>)"
      by blast
    define extra where "extra = map session_of (concat (take k (tl sched)))"
    have cat: "new @ extra = map session_of (concat (take (Suc k) sched))"
      by (cases sched) (simp_all add: new_def extra_def)
    have step: "broadcast_loop send_text sched message i got m
                  = broadcast_loop send_text (tl sched) message (Suc i) got' m'"
      using True by (subst broadcast_loop.simps) (simp add: Let_def m'_def got'_def)
    have lt: "i < length (active_connections m @ new @ extra)" using True by simp
    have nth: "(active_connections m @ new @ extra) ! i = active_connections m ! i"
      using True by (simp add: nth_append)
    have d: "drop i (active_connections m @ new @ extra)
               = active_connections m ! i # drop (Suc i) (active_connections m @ new @ extra)"
      using Cons_nth_drop_Suc [OF lt] nth by simp
    have "broadcast_loop send_text sched message i got m =
       (Inr (),
        got @ filter (\<lambda>c. send_text c message = None) (drop i (active_connections m @ (new @ extra))),
        m\<lparr>active_connections := active_connections m @ (new @ extra)\<rparr>)"
      unfolding step ih extra_def [symmetric] d by (simp add: new got'_def split: option.split)
    moreover have "length (active_connections m) + length (concat (take (Suc k) sched)) - i = Suc k"
    proof -
      have a: "length (concat (take (Suc k) sched)) = length new + length (concat (take k (tl sched)))"
        by (cases sched) (simp_all add: new_def)
      have b: "length (active_connections m') = length (active_connections m) + length new"
        by (simp add: new)
      from k True show ?thesis unfolding a b by linarith
    qed
    ultimately show ?thesis unfolding cat by blast
  qed
qed

lemma broadcast_loop_only_successful:
  "\<forall>c \<in> set got. send_text c message = None \<Longrightarrow>
     \<forall>c \<in> set (fst (snd (broadcast_loop send_text sched message i got m))). send_text c message = None"
proof (induction send_text sched message i got m rule: broadcast_loop.induct)
  case (1 send_text sched message i got m)
  show ?case
  proof (cases "i < length (active_connections m)")
    case False
    then show ?thesis using "1.prems" by (subst broadcast_loop.simps) simp
  next
    case True
    define m' where "m' = (case sched of [] \<Rightarrow> m | steps # _ \<Rightarrow> fold run_other steps m)"
    define got' where "got' = (case send_text (active_connections m ! i) message of
                                 None \<Rightarrow> got @ [active_connections m ! i] | Some e \<Rightarrow> got)"
    have g: "\<forall>c \<in> set got'. send_text c message = None"
      using "1.prems" by (auto simp: got'_def split: option.splits)
    have step: "broadcast_loop send_text sched message i got m
                  = broadcast_loop send_text (tl sched) message (Suc i) got' m'"
      using True by (subst broadcast_loop.simps) (simp add: Let_def m'_def got'_def)
    show ?thesis
      unfolding step by (rule "1.IH" [OF True refl refl m'_def got'_def g])
  qed
qed

text \<open>
  C3 (as the code has it). \<open>broadcast\<close> returns normally for every list of sessions
  (the empty one included), every message and every pattern of send failures,
  whatever other tasks do to the registry meanwhile, and a session counts as served
  only when its send succeeded: a failed send neither ends the loop nor reaches the
  caller. When no session unregisters while the broadcast runs, the sessions served
  are exactly those of the final list whose send succeeds, in list order, and the
  final list is the list at the call followed by the sessions registered during the
  rounds of the loop; with the registry left alone they are exactly the sessions
  registered at the call whose send succeeds, and the registry is unchanged.
\<close>

theorem broadcast_isolates_send_failures:
  "fst (broadcast send_text sched message m) = Inr () \<and>
   (\<forall>c \<in> set (fst (snd (broadcast send_text sched message m))). send_text c message = None) \<and>
   (only_registers sched \<longrightarrow>
      fst (snd (broadcast send_text sched message m))
        = filter (\<lambda>c. send_text c message = None)
            (active_connections (snd (snd (broadcast send_text sched message m)))) \<and>
      active_connections (snd (snd (broadcast send_text sched message m)))
        = active_connections m @
          map session_of
            (concat (take (length (active_connections (snd (snd (broadcast send_text sched message m)))))
                       sched))) \<and>
   broadcast send_text [] message m =
     (Inr (), filter (\<lambda>c. send_text c message = None) (active_connections m), m)"
proof (intro conjI impI)
  show "fst (broadcast send_text sched message m) = Inr ()"
    by (simp add: broadcast_def broadcast_loop_no_raise)
  show "\<forall>c \<in> set (fst (snd (broadcast send_text sched message m))). send_text c message = None"
    unfolding broadcast_def by (rule broadcast_loop_only_successful) simp
  show "broadcast send_text [] message m =
     (Inr (), filter (\<lambda>c. send_text c message = None) (active_connections m), m)"
    by (simp add: broadcast_def broadcast_loop_quiet)
next
  assume regs: "only_registers sched"
  from broadcast_loop_registers_exact [OF regs, of m 0 send_text message "[]"]
  obtain k where k: "length (active_connections m) + length (concat (take k sched)) = k"
    and r: "broadcast send_text sched message m =
       (Inr (),
        filter (\<lambda>c. send_text c message = None)
          (active_connections m @ map session_of (concat (take k sched))),
        m\<lparr>active_connections := active_connections m @ map session_of (concat (take k sched))\<rparr>)"
    by (auto simp: broadcast_def)
  have len: "length (active_connections (snd (snd (broadcast send_text sched message m)))) = k"
    using k by (simp add: r)
  show "fst (snd (broadcast send_text sched message m))
        = filter (\<lambda>c. send_text c message = None)
            (active_connections (snd (snd (broadcast send_text sched message m))))"
    by (simp add: r)
  show "active_connections (snd (snd (broadcast send_text sched message m)))
        = active_connections m @
          map session_of
            (concat (take (length (active_connections (snd (snd (broadcast send_text sched message m)))))
                       sched))"
    unfolding len by (simp add: r)
qed

theorem broadcast_isolates_send_failures_witness:
  "broadcast (\<lambda>c msg. if c = 2 then Some (OtherError (py ''closed'')) else None) []
     (ErrorEvent (py ''x'')) \<lparr>active_connections = [1, 2, 3]\<rparr>
     = (Inr (), [1, 3], \<lparr>active_connections = [1, 2, 3]\<rparr>) \<and>
   broadcast (\<lambda>c msg. Some TimeoutError) [] PingEvent \<lparr>active_connections = []\<rparr>
     = (Inr (), [], \<lparr>active_connections = []\<rparr>) \<and>
   only_registers [[Registers 4], [], [Registers 5]] \<and>
   broadcast (\<lambda>c msg. if c = 2 then Some (OtherError (py ''closed'')) else None)
     [[Registers 4], [], [Registers 5]] PingEvent \<lparr>active_connections = [1, 2, 3]\<rparr>
     = (Inr (), [1, 3, 4, 5], \<lparr>active_connections = [1, 2, 3, 4, 5]\<rparr>)"
proof -
  have regs: "only_registers [[Registers 4], [], [Registers 5]]"
    by (simp add: only_registers_def)
  have e3: "broadcast (\<lambda>c msg. if c = 2 then Some (OtherError (py ''closed'')) else None)
     [[Registers 4], [], [Registers 5]] PingEvent \<lparr>active_connections = [1, 2, 3]\<rparr>
     = (Inr (), [1, 3, 4, 5], \<lparr>active_connections = [1, 2, 3, 4, 5]\<rparr>)"
    by (simp add: broadcast_def broadcast_loop.simps connect_def)
  note t1 = broadcast_isolates_send_failures
          [of "\<lambda>c msg. if c = 2 then Some (OtherError (py ''closed'')) else None" "[]"
              "ErrorEvent (py ''x'')" "\<lparr>active_connections = [1, 2, 3]\<rparr>"]
  note t2 = broadcast_isolates_send_failures
          [of "\<lambda>c msg. Some TimeoutError" "[]" PingEvent "\<lparr>active_connections = []\<rparr>"]
  note t3 = broadcast_isolates_send_failures
          [of "\<lambda>c msg. if c = 2 then Some (OtherError (py ''closed'')) else None"
              "[[Registers 4], [], [Registers 5]]" PingEvent "\<lparr>active_connections = [1, 2, 3]\<rparr>"]
  have a: "broadcast (\<lambda>c msg. if c = 2 then Some (OtherError (py ''closed'')) else None) []
     (ErrorEvent (py ''x'')) \<lparr>active_connections = [1, 2, 3]\<rparr>
     = (Inr (), [1, 3], \<lparr>active_connections = [1, 2, 3]\<rparr>)"
    using t1 [THEN conjunct2, THEN conjunct2, THEN conjunct2] by simp
  have b: "broadcast (\<lambda>c msg. Some TimeoutError) [] PingEvent \<lparr>active_connections = []\<rparr>
     = (Inr (), [], \<lparr>active_connections = []\<rparr>)"
    using t2 [THEN conjunct2, THEN conjunct2, THEN conjunct2] by simp
  have c: "fst (snd (broadcast (\<lambda>c msg. if c = 2 then Some (OtherError (py ''closed'')) else None)
     [[Registers 4], [], [Registers 5]] PingEvent \<lparr>active_connections = [1, 2, 3]\<rparr>))
     = filter (\<lambda>c. (if c = 2 then Some (OtherError (py ''closed'')) else None) = None)
         (active_connections (snd (snd (broadcast (\<lambda>c msg. if c = 2 then Some (OtherError (py ''closed'')) else None)
     [[Registers 4], [], [Registers 5]] PingEvent \<lparr>active_connections = [1, 2, 3]\<rparr>))))"
    using t3 [THEN conjunct2, THEN conjunct2, THEN conjunct1, rule_format, OF regs] by blast
  from a b regs e3 c show ?thesis by blast
qed

text \<open>
  C3 as stated fails. Sessions 1, 2 and 3 are registered and the send to session 1
  fails; while the broadcast is suspended in that send, session 1 unregisters. The
  loop goes on at position 1 of the list \<open>[2, 3]\<close>: session 2, registered
  throughout and with a send that would succeed, is not served.
\<close>

theorem broadcast_failed_send_then_skip:
  "broadcast (\<lambda>c msg. if c = 1 then Some (OtherError (py ''closed'')) else None)
     [[Unregisters 1]] PingEvent \<lparr>active_connections = [1, 2, 3]\<rparr>
     = (Inr (), [3], \<lparr>active_connections = [2, 3]\<rparr>)"
  by (simp add: broadcast_def broadcast_loop.simps disconnect_def)

text \<open>
  C4 (as the code has it). \<open>broadcast\<close> walks the live list by position; it takes no
  snapshot. Whatever sessions register or unregister while it is suspended in a send,
  it returns normally. When no session unregisters during the broadcast, every
  session registered at the call whose send succeeds gets the message.
\<close>

theorem broadcast_live_list:
  "fst (broadcast send_text sched message m) = Inr () \<and>
   (only_registers sched \<longrightarrow>
      (\<forall>c \<in> set (active_connections m).
         send_text c message = None \<longrightarrow>
         c \<in> set (fst (snd (broadcast send_text sched message m)))))"
proof (intro conjI impI ballI)
  show "fst (broadcast send_text sched message m) = Inr ()"
    by (simp add: broadcast_def broadcast_loop_no_raise)
next
  fix c
  assume regs: "only_registers sched"
    and c: "c \<in> set (active_connections m)" and ok: "send_text c message = None"
  from broadcast_loop_registers [OF regs, of send_text message 0 "[]" m]
  obtain extra where
    "broadcast send_text sched message m =
       (Inr (), filter (\<lambda>c. send_text c message = None) (active_connections m @ extra),
        m\<lparr>active_connections := active_connections m @ extra\<rparr>)"
    by (auto simp: broadcast_def)
  with c ok show "c \<in> set (fst (snd (broadcast send_text sched message m)))"
    by simp
qed

theorem broadcast_live_list_witness:
  "fst (broadcast (\<lambda>c msg. None) [[Registers 4], [Unregisters 2]] PingEvent
          \<lparr>active_connections = [1, 2, 3]\<rparr>) = Inr () \<and>
   only_registers [[Registers 4]] \<and>
   1 \<in> set (fst (snd (broadcast (\<lambda>c msg. None) [[Registers 4]] PingEvent \<lparr>active_connections = [1, 2, 3]\<rparr>))) \<and>
   2 \<in> set (fst (snd (broadcast (\<lambda>c msg. None) [[Registers 4]] PingEvent \<lparr>active_connections = [1, 2, 3]\<rparr>))) \<and>
   3 \<in> set (fst (snd (broadcast (\<lambda>c msg. None) [[Registers 4]] PingEvent \<lparr>active_connections = [1, 2, 3]\<rparr>)))"
  using broadcast_live_list [of "\<lambda>c msg. None" "[[Registers 4], [Unregisters 2]]" PingEvent
          "\<lparr>active_connections = [1, 2, 3]\<rparr>"]
        broadcast_live_list [of "\<lambda>c msg. None" "[[Registers 4]]" PingEvent
          "\<lparr>active_connections = [1, 2, 3]\<rparr>"]
  by (simp add: only_registers_def)

text \<open>
  C4 as stated fails. Sessions 1, 2 and 3 are registered; while the broadcast is
  suspended in the send to session 1, session 1 unregisters. The list is then
  \<open>[2, 3]\<close> and the iterator, at position 1, goes on with session 3: session 2,
  registered throughout and with a working socket, gets nothing.
\<close>

theorem broadcast_skips_after_unregister:
  "broadcast (\<lambda>c msg. None) [[Unregisters 1]] PingEvent \<lparr>active_connections = [1, 2, 3]\<rparr>
     = (Inr (), [1, 3], \<lparr>active_connections = [2, 3]\<rparr>)"
  by (simp add: broadcast_def broadcast_loop.simps disconnect_def)

subsection \<open>The lifetime of a session\<close>

lemma count_run_other:
  "\<not> concerns websocket s \<Longrightarrow>
     count_list (active_connections (run_other s m)) websocket
       = count_list (active_connections m) websocket"
  by (cases s) (auto simp: connect_def disconnect_def count_list_remove1)

lemma count_fold_run_other:
  "list_all (\<lambda>s. \<not> concerns websocket s) others \<Longrightarrow>
     count_list (active_connections (fold run_other others m)) websocket
       = count_list (active_connections m) websocket"
  by (induction others arbitrary: m) (simp_all add: count_run_other)

text \<open>
  C9 (as the code has it). A session whose handler leaves its loop by a
  \<open>WebSocketDisconnect\<close>, raised by the receive or by the ping send, is unregistered
  by that handler, once: the handler returns normally and the registry holds the
  session as many times as before the handler registered it, so not at all when the
  session was new. Other tasks may register and unregister other sessions meanwhile.
\<close>

theorem websocket_endpoint_disconnect_unregisters:
  assumes loop: "fst (receive_loop rounds []) = Some WebSocketDisconnect"
    and others: "list_all (\<lambda>s. \<not> concerns websocket s) others"
  shows "fst (websocket_endpoint websocket None rounds others m) = Returned \<and>
         count_list (active_connections (snd (snd (websocket_endpoint websocket None rounds others m)))) websocket
           = count_list (active_connections m) websocket \<and>
         (websocket \<in> set (active_connections (snd (snd (websocket_endpoint websocket None rounds others m))))
            \<longleftrightarrow> websocket \<in> set (active_connections m))"
proof -
  define m1 where "m1 = m\<lparr>active_connections := active_connections m @ [websocket]\<rparr>"
  define m2 where "m2 = fold run_other others m1"
  obtain pings where rl: "receive_loop rounds [] = (Some WebSocketDisconnect, pings)"
    using loop by (cases "receive_loop rounds []") simp
  have c2: "count_list (active_connections m2) websocket = Suc (count_list (active_connections m) websocket)"
    using count_fold_run_other [OF others, of m1] by (simp add: m2_def m1_def)
  then have mem: "websocket \<in> set (active_connections m2)"
    using count_list_pos_iff [of "active_connections m2" websocket] by simp
  have res: "websocket_endpoint websocket None rounds others m
         = (Returned, pings, m2\<lparr>active_connections := remove1 websocket (active_connections m2)\<rparr>)"
    using mem by (simp add: websocket_endpoint_def connect_def rl disconnect_def m2_def m1_def Let_def)
  have c3: "count_list (remove1 websocket (active_connections m2)) websocket
              = count_list (active_connections m) websocket"
    using mem c2 by (simp add: count_list_remove1)
  show ?thesis
    using c3 count_list_pos_iff [of "remove1 websocket (active_connections m2)" websocket]
      count_list_pos_iff [of "active_connections m" websocket]
    by (simp add: res)
qed

theorem websocket_endpoint_disconnect_unregisters_witness:
  "websocket_endpoint 7 None [(Inr (py ''hi''), None), (Inl WebSocketDisconnect, None)]
       [Registers 8, Unregisters 5] \<lparr>active_connections = [5]\<rparr>
     = (Returned, [], \<lparr>active_connections = [8]\<rparr>) \<and>
   websocket_endpoint 7 None [(Inl TimeoutError, None), (Inl TimeoutError, Some WebSocketDisconnect)]
       [] \<lparr>active_connections = [5]\<rparr>
     = (Returned, [PingEvent], \<lparr>active_connections = [5]\<rparr>)"
  using websocket_endpoint_disconnect_unregisters
          [of "[(Inr (py ''hi''), None), (Inl WebSocketDisconnect, None)]" 7
              "[Registers 8, Unregisters 5]" "\<lparr>active_connections = [5]\<rparr>"]
        websocket_endpoint_disconnect_unregisters
          [of "[(Inl TimeoutError, None), (Inl TimeoutError, Some WebSocketDisconnect)]" 7
              "[]" "\<lparr>active_connections = [5]\<rparr>"]
  by (simp add: websocket_endpoint_def connect_def disconnect_def py_def)

text \<open>
  C9 as stated fails. The ping send of session 7 fails with an exception that is not
  a \<open>WebSocketDisconnect\<close>: the handler ends with that exception, and session 7 is
  still in the registry.
\<close>

theorem websocket_endpoint_send_failure_stays_registered:
  "websocket_endpoint 7 None
       [(Inr (py ''hello''), None), (Inl TimeoutError, Some (OtherError (py ''send failed'')))] []
       \<lparr>active_connections = [5]\<rparr>
     = (Raised (OtherError (py ''send failed'')), [], \<lparr>active_connections = [5, 7]\<rparr>)"
  by (simp add: websocket_endpoint_def connect_def py_def)


section \<open>Properties of the request handler\<close>

subsection \<open>The sample store\<close>

lemmas handler_defs =
  refine_def request_settings_def deepcopy_def setitem2_def try_pass_def
  get_refiner_def settings_or_default_def read_settings_def read_entries_def entry_value_def
  run_stages_def stages_def update_progress_def show_error_def schedule_broadcast_def
  job_settings_def acquire_refiner_def Let_def

lemmas sample_defs = sample_env_def sample_state_def strip_def isspace_def py_def

lemma sample_allocated: "defaults_allocated sample_env sample_state"
  by (simp add: defaults_allocated_def sample_env_def sample_state_def)

lemma sample_unshared: "defaults_unshared sample_env sample_state"
  by (simp add: defaults_unshared_def sample_env_def sample_state_def)

lemma sample_text: "manuscriptText \<lparr>manuscriptText = py ''abc'', maxResults = a, noCache = b\<rparr> \<noteq> [] \<and>
   strip (manuscriptText \<lparr>manuscriptText = py ''abc'', maxResults = a, noCache = b\<rparr>) \<noteq> []"
  by (simp add: py_def strip_def isspace_def)

lemma sample_defaults:
  "read_settings sample_state (DEFAULT_SETTINGS sample_env)
     = [(''search_settings'', Inr [(''max_results'', PyInt 20), (''timeout'', PyInt 30)]),
        (''privacy_settings'', Inr [(''cache_enabled'', PyBool True)]),
        (''version'', Inl (PyInt 1))]"
  by (simp add: read_settings_def read_entries_def entry_value_def sample_state_def sample_env_def)

subsection \<open>Blank text\<close>

lemma strip_empty_iff: "strip t = [] \<longleftrightarrow> (\<forall>c \<in> set t. isspace c)"
proof
  assume "strip t = []"
  then have "dropWhile isspace (rev (dropWhile isspace t)) = []"
    by (simp add: strip_def del: dropWhile_eq_Nil_conv)
  then have "\<forall>c \<in> set (rev (dropWhile isspace t)). isspace c"
    using dropWhile_eq_Nil_conv [of isspace "rev (dropWhile isspace t)"] by blast
  then have all: "\<forall>c \<in> set (dropWhile isspace t). isspace c"
    by (simp only: set_rev)
  have "dropWhile isspace t = []"
  proof (rule ccontr)
    assume ne: "dropWhile isspace t \<noteq> []"
    then have "\<not> isspace (hd (dropWhile isspace t))" by (rule hd_dropWhile)
    moreover have "hd (dropWhile isspace t) \<in> set (dropWhile isspace t)"
      using ne by (rule hd_in_set)
    ultimately show False using all by blast
  qed
  then show "\<forall>c \<in> set t. isspace c"
    using dropWhile_eq_Nil_conv [of isspace t] by blast
next
  assume "\<forall>c \<in> set t. isspace c"
  then have "dropWhile isspace t = []"
    using dropWhile_eq_Nil_conv [of isspace t] by blast
  then show "strip t = []" by (simp add: strip_def del: dropWhile_eq_Nil_conv)
qed

text \<open>
  C1. When \<open>manuscriptText\<close> is empty or consists of whitespace only, \<open>refine\<close>
  returns the response with three empty strings, whatever the collaborators and the
  state are, and leaves the whole state as it was: no processor is built or stored,
  no settings object is made and no broadcast is scheduled.
\<close>

theorem refine_blank_text:
  assumes "manuscriptText req = [] \<or> (\<forall>c \<in> set (manuscriptText req). isspace c)"
  shows "refine env req st = (Inr \<lparr>processedText = [], bibliographyText = [], bibtex = []\<rparr>, st)"
  using assms by (auto simp: refine_def strip_empty_iff)

theorem refine_blank_text_witness:
  "refine sample_env \<lparr>manuscriptText = [], maxResults = Some 10, noCache = Some True\<rparr> sample_state
     = (Inr \<lparr>processedText = [], bibliographyText = [], bibtex = []\<rparr>, sample_state) \<and>
   refine sample_env \<lparr>manuscriptText = py ''   '', maxResults = None, noCache = None\<rparr> sample_state
     = (Inr \<lparr>processedText = [], bibliographyText = [], bibtex = []\<rparr>, sample_state)"
  using refine_blank_text [of "\<lparr>manuscriptText = [], maxResults = Some 10, noCache = Some True\<rparr>"
          sample_env sample_state]
        refine_blank_text [of "\<lparr>manuscriptText = py ''   '', maxResults = None, noCache = None\<rparr>"
          sample_env sample_state]
  by (simp add: py_def isspace_def)

subsection \<open>The copy of the defaults\<close>

lemma copy_entries_frame:
  "copy_entries es memo st = (es', memo', st') \<Longrightarrow>
     next_addr st \<le> next_addr st' \<and> dicts st' = dicts st \<and>
     nlp_processor st' = nlp_processor st \<and> tasks st' = tasks st \<and>
     (\<forall>b < next_addr st. groups st' b = groups st b)"
proof (induction es arbitrary: memo st es' memo' st')
  case Nil
  then show ?case by simp
next
  case (Cons p es)
  obtain k x where p: "p = (k, x)" by (cases p)
  show ?case
  proof (cases x)
    case (Plain v)
    with Cons p show ?thesis by (auto split: prod.splits)
  next
    case (Group a)
    show ?thesis
    proof (cases "map_of memo a")
      case (Some a')
      with Cons p Group show ?thesis by (auto split: prod.splits)
    next
      case None
      define st1 where "st1 = st\<lparr>groups := (groups st)(next_addr st := groups st a), next_addr := Suc (next_addr st)\<rparr>"
      obtain es1 memo1 st2 where c: "copy_entries es ((a, next_addr st) # memo) st1 = (es1, memo1, st2)"
        by (cases "copy_entries es ((a, next_addr st) # memo) st1") auto
      have st': "st' = st2"
        using Cons.prems None c by (simp add: p Group Let_def st1_def)
      from Cons.IH [OF c]
      show ?thesis
        by (auto simp: st' st1_def)
    qed
  qed
qed

lemma read_entries_cong:
  "(\<And>a. a \<in> set (group_addrs es) \<Longrightarrow> g a = g' a) \<Longrightarrow> read_entries g es = read_entries g' es"
proof (induction es)
  case Nil
  show ?case by (simp add: read_entries_def)
next
  case (Cons p es)
  obtain k x where p: "p = (k, x)" by (cases p)
  have "read_entries g es = read_entries g' es"
    using Cons by (cases x) (simp_all add: p)
  moreover have "entry_value g x = entry_value g' x"
    using Cons.prems by (cases x) (simp_all add: p entry_value_def)
  ultimately show ?case by (simp add: read_entries_def p)
qed

lemma copy_entries_value:
  assumes "copy_entries es memo st = (es', memo', st')"
    and "\<forall>a \<in> set (group_addrs es). a < next_addr st"
    and "\<forall>a a'. map_of memo a = Some a' \<longrightarrow>
           a < next_addr st \<and> a' < next_addr st \<and> groups st a' = groups st a"
  shows "read_entries (groups st') es' = read_entries (groups st) es"
  using assms
proof (induction es arbitrary: memo st es' memo' st')
  case Nil
  then show ?case by (simp add: read_entries_def)
next
  case (Cons p es)
  obtain k x where p: "p = (k, x)" by (cases p)
  show ?case
  proof (cases x)
    case (Plain v)
    obtain es1 memo1 st2 where c: "copy_entries es memo st = (es1, memo1, st2)"
      by (cases "copy_entries es memo st") auto
    have eq: "es' = (k, Plain v) # es1" "st' = st2"
      using Cons.prems(1) c by (simp_all add: p Plain)
    have "read_entries (groups st2) es1 = read_entries (groups st) es"
      using Cons.IH [OF c] Cons.prems(2,3) by (simp add: p Plain)
    then show ?thesis by (simp add: eq p Plain read_entries_def entry_value_def)
  next
    case (Group a)
    have a_lt: "a < next_addr st" using Cons.prems(2) by (simp add: p Group)
    have tl_lt: "\<forall>b \<in> set (group_addrs es). b < next_addr st"
      using Cons.prems(2) by (simp add: p Group)
    show ?thesis
    proof (cases "map_of memo a")
      case (Some a')
      obtain es1 memo1 st2 where c: "copy_entries es memo st = (es1, memo1, st2)"
        by (cases "copy_entries es memo st") auto
      have eq: "es' = (k, Group a') # es1" "st' = st2"
        using Cons.prems(1) c Some by (simp_all add: p Group)
      have ih: "read_entries (groups st2) es1 = read_entries (groups st) es"
        using Cons.IH [OF c] tl_lt Cons.prems(3) by simp
      have "a' < next_addr st" "groups st a' = groups st a"
        using Cons.prems(3) Some by blast+
      then have "groups st2 a' = groups st a"
        using copy_entries_frame [OF c] by simp
      with ih show ?thesis by (simp add: eq p Group read_entries_def entry_value_def)
    next
      case None
      define a' where "a' = next_addr st"
      define st1 where "st1 = st\<lparr>groups := (groups st)(a' := groups st a), next_addr := Suc a'\<rparr>"
      obtain es1 memo1 st2 where c: "copy_entries es ((a, a') # memo) st1 = (es1, memo1, st2)"
        by (cases "copy_entries es ((a, a') # memo) st1") auto
      have eq: "es' = (k, Group a') # es1" "st' = st2"
        using Cons.prems(1) c None by (simp_all add: p Group Let_def st1_def a'_def)
      have pre2: "\<forall>b \<in> set (group_addrs es). b < next_addr st1"
        using tl_lt by (auto simp: st1_def a'_def)
      have pre3: "\<forall>b b'. map_of ((a, a') # memo) b = Some b' \<longrightarrow>
           b < next_addr st1 \<and> b' < next_addr st1 \<and> groups st1 b' = groups st1 b"
      proof (intro allI impI)
        fix b b'
        assume m: "map_of ((a, a') # memo) b = Some b'"
        show "b < next_addr st1 \<and> b' < next_addr st1 \<and> groups st1 b' = groups st1 b"
        proof (cases "b = a")
          case True
          with m have "b' = a'" by simp
          with True a_lt show ?thesis by (simp add: st1_def a'_def)
        next
          case False
          with m have "map_of memo b = Some b'" by simp
          with Cons.prems(3)
          have "b < next_addr st" "b' < next_addr st" "groups st b' = groups st b" by blast+
          then show ?thesis by (simp add: st1_def a'_def)
        qed
      qed
      have ih: "read_entries (groups st2) es1 = read_entries (groups st1) es"
        by (rule Cons.IH [OF c pre2 pre3])
      have "read_entries (groups st1) es = read_entries (groups st) es"
        by (rule read_entries_cong) (use tl_lt in \<open>auto simp: st1_def a'_def\<close>)
      moreover have "groups st2 a' = groups st a"
        using copy_entries_frame [OF c] by (simp add: st1_def)
      ultimately show ?thesis
        using ih by (simp add: eq p Group read_entries_def entry_value_def)
    qed
  qed
qed

lemma copy_entries_fresh:
  assumes "copy_entries es memo st = (es', memo', st')"
    and "\<forall>a a'. map_of memo a = Some a' \<longrightarrow> n0 \<le> a'"
    and "n0 \<le> next_addr st"
  shows "\<forall>a' \<in> set (group_addrs es'). n0 \<le> a'"
  using assms
proof (induction es arbitrary: memo st es' memo' st')
  case Nil
  then show ?case by simp
next
  case (Cons p es)
  obtain k x where p: "p = (k, x)" by (cases p)
  show ?case
  proof (cases x)
    case (Plain v)
    obtain es1 memo1 st2 where c: "copy_entries es memo st = (es1, memo1, st2)"
      by (cases "copy_entries es memo st") auto
    have eq: "es' = (k, Plain v) # es1"
      using Cons.prems(1) c by (simp_all add: p Plain)
    show ?thesis using Cons.IH [OF c Cons.prems(2,3)] by (simp add: eq)
  next
    case (Group a)
    show ?thesis
    proof (cases "map_of memo a")
      case (Some a')
      obtain es1 memo1 st2 where c: "copy_entries es memo st = (es1, memo1, st2)"
        by (cases "copy_entries es memo st") auto
      have eq: "es' = (k, Group a') # es1"
        using Cons.prems(1) c Some by (simp_all add: p Group)
      have "n0 \<le> a'" using Cons.prems(2) Some by blast
      then show ?thesis using Cons.IH [OF c Cons.prems(2,3)] by (simp add: eq)
    next
      case None
      define a' where "a' = next_addr st"
      define st1 where "st1 = st\<lparr>groups := (groups st)(a' := groups st a), next_addr := Suc a'\<rparr>"
      obtain es1 memo1 st2 where c: "copy_entries es ((a, a') # memo) st1 = (es1, memo1, st2)"
        by (cases "copy_entries es ((a, a') # memo) st1") auto
      have eq: "es' = (k, Group a') # es1"
        using Cons.prems(1) c None by (simp_all add: p Group Let_def st1_def a'_def)
      have pre2: "\<forall>b b'. map_of ((a, a') # memo) b = Some b' \<longrightarrow> n0 \<le> b'"
        using Cons.prems(2,3) by (auto simp: a'_def)
      have pre3: "n0 \<le> next_addr st1" using Cons.prems(3) by (simp add: st1_def a'_def)
      show ?thesis
        using Cons.IH [OF c pre2 pre3] Cons.prems(3) by (simp add: eq a'_def)
    qed
  qed
qed

lemma copy_entries_distinct:
  assumes "copy_entries es memo st = (es', memo', st')"
    and "distinct (group_addrs es)"
    and "\<forall>a \<in> set (group_addrs es). map_of memo a = None"
  shows "distinct (group_addrs es') \<and> (\<forall>a' \<in> set (group_addrs es'). next_addr st \<le> a')"
  using assms
proof (induction es arbitrary: memo st es' memo' st')
  case Nil
  then show ?case by simp
next
  case (Cons p es)
  obtain k x where p: "p = (k, x)" by (cases p)
  show ?case
  proof (cases x)
    case (Plain v)
    obtain es1 memo1 st2 where c: "copy_entries es memo st = (es1, memo1, st2)"
      by (cases "copy_entries es memo st") auto
    have eq: "es' = (k, Plain v) # es1"
      using Cons.prems(1) c by (simp_all add: p Plain)
    show ?thesis using Cons.IH [OF c] Cons.prems(2,3) by (simp add: eq p Plain)
  next
    case (Group a)
    have None: "map_of memo a = None" using Cons.prems(3) by (simp add: p Group)
    define a' where "a' = next_addr st"
    define st1 where "st1 = st\<lparr>groups := (groups st)(a' := groups st a), next_addr := Suc a'\<rparr>"
    obtain es1 memo1 st2 where c: "copy_entries es ((a, a') # memo) st1 = (es1, memo1, st2)"
      by (cases "copy_entries es ((a, a') # memo) st1") auto
    have eq: "es' = (k, Group a') # es1"
      using Cons.prems(1) c None by (simp_all add: p Group Let_def st1_def a'_def)
    have pre2: "distinct (group_addrs es)" using Cons.prems(2) by (simp add: p Group)
    have pre3: "\<forall>b \<in> set (group_addrs es). map_of ((a, a') # memo) b = None"
      using Cons.prems(2,3) by (auto simp: p Group)
    have ih: "distinct (group_addrs es1) \<and> (\<forall>b \<in> set (group_addrs es1). next_addr st1 \<le> b)"
      by (rule Cons.IH [OF c pre2 pre3])
    then have "a' \<notin> set (group_addrs es1)" by (auto simp: st1_def)
    with ih show ?thesis by (auto simp: eq st1_def a'_def)
  qed
qed

lemma copy_entries_keys:
  "copy_entries es memo st = (es', memo', st') \<Longrightarrow> map fst es' = map fst es"
proof (induction es arbitrary: memo st es' memo' st')
  case Nil
  then show ?case by simp
next
  case (Cons p es)
  obtain k x where p: "p = (k, x)" by (cases p)
  show ?case
  proof (cases x)
    case (Plain v)
    with Cons p show ?thesis by (auto split: prod.splits)
  next
    case (Group a)
    with Cons p show ?thesis
      by (cases "map_of memo a") (auto simp: Let_def split: prod.splits)
  qed
qed

lemma read_entries_Nil: "read_entries g [] = []"
  by (simp add: read_entries_def)

lemma read_entries_Cons: "read_entries g ((k, x) # es) = (k, entry_value g x) # read_entries g es"
  by (simp add: read_entries_def)

lemma map_of_group_addrs: "map_of es k = Some (Group a) \<Longrightarrow> a \<in> set (group_addrs es)"
proof (induction es)
  case Nil
  then show ?case by simp
next
  case (Cons p es)
  obtain k' x where p: "p = (k', x)" by (cases p)
  with Cons show ?case by (cases x) (auto split: if_splits)
qed

lemma read_entries_update_group:
  assumes "distinct (group_addrs es)" and "map_of es k1 = Some (Group a)"
  shows "read_entries (g(a := f (g a))) es = AList.map_entry k1 (map_sum id f) (read_entries g es)"
  using assms
proof (induction es)
  case Nil
  then show ?case by (simp add: read_entries_Nil)
next
  case (Cons p es)
  obtain k x where p: "p = (k, x)" by (cases p)
  show ?case
  proof (cases "k = k1")
    case True
    with Cons.prems(2) have x: "x = Group a" by (simp add: p)
    have "a \<notin> set (group_addrs es)" using Cons.prems(1) by (simp add: p x)
    then have re: "read_entries (g(a := f (g a))) es = read_entries g es"
      by (intro read_entries_cong) auto
    have lhs: "read_entries (g(a := f (g a))) (p # es) = (k1, Inr (f (g a))) # read_entries g es"
      unfolding p x True read_entries_Cons re by (simp add: entry_value_def)
    have rhs: "AList.map_entry k1 (map_sum id f) (read_entries g (p # es))
                 = (k1, Inr (f (g a))) # read_entries g es"
      unfolding p x True read_entries_Cons by (simp add: entry_value_def)
    show ?thesis unfolding lhs rhs ..
  next
    case False
    with Cons.prems(2) have m: "map_of es k1 = Some (Group a)" by (simp add: p)
    have d: "distinct (group_addrs es)" using Cons.prems(1) by (cases x) (simp_all add: p)
    have ih: "read_entries (g(a := f (g a))) es = AList.map_entry k1 (map_sum id f) (read_entries g es)"
      by (rule Cons.IH [OF d m])
    have "entry_value (g(a := f (g a))) x = entry_value g x"
    proof (cases x)
      case (Plain v)
      then show ?thesis by (simp add: entry_value_def)
    next
      case (Group b)
      have "a \<in> set (group_addrs es)" using m by (rule map_of_group_addrs)
      with Cons.prems(1) have "b \<noteq> a" by (auto simp: p Group)
      then show ?thesis by (simp add: Group entry_value_def)
    qed
    with ih False show ?thesis
      by (simp only: p read_entries_Cons AList.map_entry.simps fst_conv snd_conv if_False)
  qed
qed

lemma read_entries_no_group:
  assumes "\<forall>a. map_of es k1 \<noteq> Some (Group a)"
  shows "AList.map_entry k1 (map_sum id f) (read_entries g es) = read_entries g es"
  using assms
proof (induction es)
  case Nil
  then show ?case by (simp add: read_entries_def)
next
  case (Cons p es)
  obtain k x where p: "p = (k, x)" by (cases p)
  show ?case
  proof (cases "k = k1")
    case True
    with Cons.prems obtain v where "x = Plain v" by (cases x) (auto simp: p)
    with True show ?thesis by (simp add: p read_entries_Cons entry_value_def)
  next
    case False
    with Cons show ?thesis by (simp add: p read_entries_Cons)
  qed
qed

lemma setitem2_frame:
  "dicts (try_pass (setitem2 d k1 k2 v st)) = dicts st \<and>
   next_addr (try_pass (setitem2 d k1 k2 v st)) = next_addr st \<and>
   nlp_processor (try_pass (setitem2 d k1 k2 v st)) = nlp_processor st \<and>
   tasks (try_pass (setitem2 d k1 k2 v st)) = tasks st \<and>
   (\<forall>b. b \<notin> set (group_addrs (dicts st d)) \<longrightarrow>
      groups (try_pass (setitem2 d k1 k2 v st)) b = groups st b)"
  by (auto simp: setitem2_def try_pass_def dest: map_of_group_addrs
           split: option.splits entry.splits)

lemma setitem2_read:
  assumes "distinct (group_addrs (dicts st d))"
  shows "read_settings (try_pass (setitem2 d k1 k2 v st)) d
           = with_override k1 k2 v (read_settings st d)"
proof (cases "\<exists>a. map_of (dicts st d) k1 = Some (Group a)")
  case True
  then obtain a where a: "map_of (dicts st d) k1 = Some (Group a)" by blast
  show ?thesis
    using read_entries_update_group [OF assms a, of "groups st" "AList.update k2 v"]
    by (simp add: setitem2_def try_pass_def a read_settings_def with_override_def)
next
  case False
  then have no: "\<forall>a. map_of (dicts st d) k1 \<noteq> Some (Group a)" by blast
  have "try_pass (setitem2 d k1 k2 v st) = st"
    using no by (auto simp: setitem2_def try_pass_def split: option.splits entry.splits)
  then show ?thesis
    using read_entries_no_group [OF no, of "AList.update k2 v" "groups st"]
    by (simp add: read_settings_def with_override_def)
qed

lemma deepcopy_frame:
  assumes "deepcopy d st = (d', st1)"
  shows "next_addr st \<le> d'" and "next_addr st1 = Suc d'"
    and "\<forall>b. b \<noteq> d' \<longrightarrow> dicts st1 b = dicts st b"
    and "\<forall>b < next_addr st. groups st1 b = groups st b"
    and "nlp_processor st1 = nlp_processor st" and "tasks st1 = tasks st"
    and "\<forall>a \<in> set (group_addrs (dicts st1 d')). next_addr st \<le> a"
    and "map fst (dicts st1 d') = map fst (dicts st d)"
proof -
  obtain es memo st0 where c: "copy_entries (dicts st d) [] st = (es, memo, st0)"
    by (cases "copy_entries (dicts st d) [] st") auto
  have d': "d' = next_addr st0"
    and st1: "st1 = st0\<lparr>dicts := (dicts st0)(next_addr st0 := es), next_addr := Suc (next_addr st0)\<rparr>"
    using assms c by (auto simp: deepcopy_def)
  note fr = copy_entries_frame [OF c]
  show "next_addr st \<le> d'" using fr by (simp add: d')
  show "next_addr st1 = Suc d'" by (simp add: st1 d')
  show "\<forall>b. b \<noteq> d' \<longrightarrow> dicts st1 b = dicts st b" using fr by (simp add: st1 d')
  show "\<forall>b < next_addr st. groups st1 b = groups st b" using fr by (simp add: st1)
  show "nlp_processor st1 = nlp_processor st" using fr by (simp add: st1)
  show "tasks st1 = tasks st" using fr by (simp add: st1)
  show "\<forall>a \<in> set (group_addrs (dicts st1 d')). next_addr st \<le> a"
    using copy_entries_fresh [OF c, of "next_addr st"] by (simp add: st1 d')
  show "map fst (dicts st1 d') = map fst (dicts st d)"
    using copy_entries_keys [OF c] by (simp add: st1 d')
qed

lemma deepcopy_value:
  assumes "deepcopy d st = (d', st1)"
    and "\<forall>a \<in> set (group_addrs (dicts st d)). a < next_addr st"
  shows "read_settings st1 d' = read_settings st d"
proof -
  obtain es memo st0 where c: "copy_entries (dicts st d) [] st = (es, memo, st0)"
    by (cases "copy_entries (dicts st d) [] st") auto
  have d': "d' = next_addr st0"
    and st1: "st1 = st0\<lparr>dicts := (dicts st0)(next_addr st0 := es), next_addr := Suc (next_addr st0)\<rparr>"
    using assms c by (auto simp: deepcopy_def)
  have "read_entries (groups st0) es = read_entries (groups st) (dicts st d)"
    by (rule copy_entries_value [OF c assms(2)]) simp
  then show ?thesis by (simp add: read_settings_def st1 d')
qed

lemma deepcopy_distinct:
  assumes "deepcopy d st = (d', st1)" and "distinct (group_addrs (dicts st d))"
  shows "distinct (group_addrs (dicts st1 d'))"
proof -
  obtain es memo st0 where c: "copy_entries (dicts st d) [] st = (es, memo, st0)"
    by (cases "copy_entries (dicts st d) [] st") auto
  have d': "d' = next_addr st0"
    and st1: "st1 = st0\<lparr>dicts := (dicts st0)(next_addr st0 := es), next_addr := Suc (next_addr st0)\<rparr>"
    using assms c by (auto simp: deepcopy_def)
  have "distinct (group_addrs es)"
    using copy_entries_distinct [OF c assms(2)] by simp
  then show ?thesis by (simp add: st1 d')
qed

subsection \<open>The settings of a request\<close>

lemma request_settings_unfold:
  assumes "request_settings env req st = (settings, st3)"
  obtains st1 st2 where "deepcopy (DEFAULT_SETTINGS env) st = (settings, st1)"
    and "st2 = (case maxResults req of
                  Some n \<Rightarrow>
                    if 0 < n
                    then try_pass (setitem2 settings ''search_settings'' ''max_results'' (PyInt n) st1)
                    else st1
                | None \<Rightarrow> st1)"
    and "st3 = (case noCache req of
                  Some b \<Rightarrow>
                    if b
                    then try_pass (setitem2 settings ''privacy_settings'' ''cache_enabled'' (PyBool False) st2)
                    else st2
                | None \<Rightarrow> st2)"
proof -
  obtain d st1 where dc: "deepcopy (DEFAULT_SETTINGS env) st = (d, st1)"
    by (cases "deepcopy (DEFAULT_SETTINGS env) st") auto
  from assms dc have d: "d = settings" by (simp add: request_settings_def Let_def)
  define st2 where "st2 = (case maxResults req of
                  Some n \<Rightarrow>
                    if 0 < n
                    then try_pass (setitem2 settings ''search_settings'' ''max_results'' (PyInt n) st1)
                    else st1
                | None \<Rightarrow> st1)"
  have st3: "st3 = (case noCache req of
                  Some b \<Rightarrow>
                    if b
                    then try_pass (setitem2 settings ''privacy_settings'' ''cache_enabled'' (PyBool False) st2)
                    else st2
                | None \<Rightarrow> st2)"
  proof -
    have "request_settings env req st = (settings, case noCache req of
                  Some b \<Rightarrow>
                    if b
                    then try_pass (setitem2 settings ''privacy_settings'' ''cache_enabled'' (PyBool False) st2)
                    else st2
                | None \<Rightarrow> st2)"
      by (simp only: request_settings_def dc d prod.case Let_def st2_def)
    with assms show ?thesis by (simp only: prod.inject)
  qed
  from dc d have "deepcopy (DEFAULT_SETTINGS env) st = (settings, st1)" by simp
  then show ?thesis using st2_def st3 by (rule that)
qed

lemma request_settings_frame:
  assumes "request_settings env req st = (settings, st3)"
  shows "next_addr st \<le> settings"
    and "\<forall>b < next_addr st. dicts st3 b = dicts st b"
    and "\<forall>b < next_addr st. groups st3 b = groups st b"
    and "nlp_processor st3 = nlp_processor st"
    and "tasks st3 = tasks st"
    and "map fst (dicts st3 settings) = map fst (dicts st (DEFAULT_SETTINGS env))"
proof -
  from assms obtain st1 st2 where dc: "deepcopy (DEFAULT_SETTINGS env) st = (settings, st1)"
    and st2: "st2 = (case maxResults req of
                  Some n \<Rightarrow>
                    if 0 < n
                    then try_pass (setitem2 settings ''search_settings'' ''max_results'' (PyInt n) st1)
                    else st1
                | None \<Rightarrow> st1)"
    and st3: "st3 = (case noCache req of
                  Some b \<Rightarrow>
                    if b
                    then try_pass (setitem2 settings ''privacy_settings'' ''cache_enabled'' (PyBool False) st2)
                    else st2
                | None \<Rightarrow> st2)"
    by (rule request_settings_unfold)
  note d = deepcopy_frame [OF dc]
  have fresh: "\<And>b. b < next_addr st \<Longrightarrow> b \<notin> set (group_addrs (dicts st1 settings))"
    using d(7) by fastforce
  have s2: "dicts st2 = dicts st1 \<and> nlp_processor st2 = nlp_processor st1 \<and> tasks st2 = tasks st1 \<and>
            (\<forall>b < next_addr st. groups st2 b = groups st1 b)"
    using setitem2_frame [of settings _ _ _ st1] fresh
    by (auto simp: st2 split: option.splits)
  have fresh2: "\<And>b. b < next_addr st \<Longrightarrow> b \<notin> set (group_addrs (dicts st2 settings))"
    using fresh s2 by simp
  have s3: "dicts st3 = dicts st2 \<and> nlp_processor st3 = nlp_processor st2 \<and> tasks st3 = tasks st2 \<and>
            (\<forall>b < next_addr st. groups st3 b = groups st2 b)"
    using setitem2_frame [of settings _ _ _ st2] fresh2
    by (auto simp: st3 split: option.splits)
  show "next_addr st \<le> settings" by (rule d(1))
  show "\<forall>b < next_addr st. dicts st3 b = dicts st b" using d(1,3) s2 s3 by auto
  show "\<forall>b < next_addr st. groups st3 b = groups st b" using d(4) s2 s3 by auto
  show "nlp_processor st3 = nlp_processor st" using d(5) s2 s3 by simp
  show "tasks st3 = tasks st" using d(6) s2 s3 by simp
  show "map fst (dicts st3 settings) = map fst (dicts st (DEFAULT_SETTINGS env))"
    using d(8) s2 s3 by simp
qed

lemma request_settings_value:
  assumes rs: "request_settings env req st = (settings, st3)"
    and alloc: "\<forall>a \<in> set (group_addrs (dicts st (DEFAULT_SETTINGS env))). a < next_addr st"
    and unshared: "distinct (group_addrs (dicts st (DEFAULT_SETTINGS env)))"
  shows "read_settings st3 settings
           = expected_settings req (read_settings st (DEFAULT_SETTINGS env))"
proof -
  from rs obtain st1 st2 where dc: "deepcopy (DEFAULT_SETTINGS env) st = (settings, st1)"
    and st2: "st2 = (case maxResults req of
                  Some n \<Rightarrow>
                    if 0 < n
                    then try_pass (setitem2 settings ''search_settings'' ''max_results'' (PyInt n) st1)
                    else st1
                | None \<Rightarrow> st1)"
    and st3: "st3 = (case noCache req of
                  Some b \<Rightarrow>
                    if b
                    then try_pass (setitem2 settings ''privacy_settings'' ''cache_enabled'' (PyBool False) st2)
                    else st2
                | None \<Rightarrow> st2)"
    by (rule request_settings_unfold)
  define defaults where "defaults = read_settings st (DEFAULT_SETTINGS env)"
  define s1 where "s1 = (case maxResults req of
                  Some n \<Rightarrow>
                    if 0 < n then with_override ''search_settings'' ''max_results'' (PyInt n) defaults
                    else defaults
                | None \<Rightarrow> defaults)"
  have r1: "read_settings st1 settings = defaults"
    unfolding defaults_def by (rule deepcopy_value [OF dc alloc])
  have d1: "distinct (group_addrs (dicts st1 settings))"
    by (rule deepcopy_distinct [OF dc unshared])
  have r2: "read_settings st2 settings = s1"
    using setitem2_read [OF d1] r1 by (simp add: st2 s1_def split: option.splits)
  have "dicts st2 = dicts st1"
    using setitem2_frame [of settings _ _ _ st1] by (simp add: st2 split: option.splits)
  with d1 have d2: "distinct (group_addrs (dicts st2 settings))" by simp
  have "read_settings st3 settings =
          (if noCache req = Some True
           then with_override ''privacy_settings'' ''cache_enabled'' (PyBool False) s1 else s1)"
    using setitem2_read [OF d2] r2 by (auto simp: st3 split: option.splits)
  then show ?thesis
    unfolding expected_settings_def Let_def s1_def defaults_def .
qed

lemma job_settings_expected:
  assumes "defaults_allocated env st" and "defaults_unshared env st"
  shows "job_settings env req st = expected_settings req (read_settings st (DEFAULT_SETTINGS env))"
proof -
  obtain settings st3 where rs: "request_settings env req st = (settings, st3)"
    by (cases "request_settings env req st") auto
  have alloc: "\<forall>a \<in> set (group_addrs (dicts st (DEFAULT_SETTINGS env))). a < next_addr st"
    and dflt: "DEFAULT_SETTINGS env < next_addr st"
    using assms(1) by (simp_all add: defaults_allocated_def list_all_iff)
  have unshared: "distinct (group_addrs (dicts st (DEFAULT_SETTINGS env)))"
    using assms(2) by (simp add: defaults_unshared_def)
  note v = request_settings_value [OF rs alloc unshared]
  note f = request_settings_frame [OF rs]
  show ?thesis
  proof (cases "dicts st3 settings = []")
    case False
    then show ?thesis by (simp add: job_settings_def rs settings_or_default_def v)
  next
    case True
    with f(6) have e: "dicts st (DEFAULT_SETTINGS env) = []" by simp
    have "dicts st3 (DEFAULT_SETTINGS env) = []" using f(2) dflt e by simp
    then have "read_settings st3 (DEFAULT_SETTINGS env) = read_settings st3 settings"
      using True by (simp add: read_settings_def)
    with True show ?thesis by (simp add: job_settings_def rs settings_or_default_def v)
  qed
qed

lemma map_fst_map_entry: "map fst (AList.map_entry k f xs) = map fst xs"
  by (induction xs) auto

lemma lookup2_with_override:
  "lookup2 (with_override k1 k2 v sv) k1' k2' =
     (if k1' = k1 \<and> k2' = k2 \<and> (\<exists>g. map_of sv k1 = Some (Inr g)) then Some v
      else lookup2 sv k1' k2')"
proof (cases "map_of sv k1")
  case None
  then show ?thesis
    by (simp add: lookup2_def with_override_def map_of_map_entry)
next
  case (Some x)
  show ?thesis
  proof (cases x)
    case (Inl p)
    with Some show ?thesis
      by (simp add: lookup2_def with_override_def map_of_map_entry)
  next
    case (Inr g)
    with Some show ?thesis
      by (simp add: lookup2_def with_override_def map_of_map_entry update_conv')
  qed
qed

lemma map_of_with_override_group:
  "(\<exists>g. map_of (with_override k1 k2 v sv) k = Some (Inr g)) \<longleftrightarrow> (\<exists>g. map_of sv k = Some (Inr g))"
proof (cases "map_of sv k1")
  case None
  then show ?thesis by (auto simp: with_override_def map_of_map_entry)
next
  case (Some x)
  then show ?thesis
    by (cases x) (auto simp: with_override_def map_of_map_entry)
qed

lemma map_of_with_override_plain:
  "map_of (with_override k1 k2 v sv) k = Some (Inl p) \<longleftrightarrow> map_of sv k = Some (Inl p)"
proof (cases "map_of sv k1")
  case None
  then show ?thesis by (auto simp: with_override_def map_of_map_entry)
next
  case (Some x)
  then show ?thesis
    by (cases x) (auto simp: with_override_def map_of_map_entry)
qed

lemma map_fst_with_override: "map fst (with_override k1 k2 v sv) = map fst sv"
  by (simp add: with_override_def map_fst_map_entry)

lemma expected_settings_facts:
  assumes s: "\<exists>g. map_of defaults ''search_settings'' = Some (Inr g)"
    and p: "\<exists>g. map_of defaults ''privacy_settings'' = Some (Inr g)"
  shows "lookup2 (expected_settings req defaults) ''search_settings'' ''max_results'' =
           (case maxResults req of
              Some n \<Rightarrow> if 0 < n then Some (PyInt n)
                        else lookup2 defaults ''search_settings'' ''max_results''
            | None \<Rightarrow> lookup2 defaults ''search_settings'' ''max_results'')"
    and "lookup2 (expected_settings req defaults) ''privacy_settings'' ''cache_enabled'' =
           (if noCache req = Some True then Some (PyBool False)
            else lookup2 defaults ''privacy_settings'' ''cache_enabled'')"
    and "\<forall>k1 k2. (k1, k2) \<noteq> (''search_settings'', ''max_results'') \<and>
                  (k1, k2) \<noteq> (''privacy_settings'', ''cache_enabled'') \<longrightarrow>
                  lookup2 (expected_settings req defaults) k1 k2 = lookup2 defaults k1 k2"
    and "\<forall>k v. map_of (expected_settings req defaults) k = Some (Inl v) \<longleftrightarrow>
                 map_of defaults k = Some (Inl v)"
    and "map fst (expected_settings req defaults) = map fst defaults"
proof -
  define s1 where "s1 = (case maxResults req of
                  Some n \<Rightarrow>
                    if 0 < n then with_override ''search_settings'' ''max_results'' (PyInt n) defaults
                    else defaults
                | None \<Rightarrow> defaults)"
  have e: "expected_settings req defaults =
             (if noCache req = Some True
              then with_override ''privacy_settings'' ''cache_enabled'' (PyBool False) s1 else s1)"
    unfolding expected_settings_def Let_def s1_def ..
  have p1: "\<exists>g. map_of s1 ''privacy_settings'' = Some (Inr g)"
    using p by (auto simp: s1_def map_of_with_override_group split: option.splits)
  have l1: "lookup2 s1 ''search_settings'' ''max_results'' =
           (case maxResults req of
              Some n \<Rightarrow> if 0 < n then Some (PyInt n)
                        else lookup2 defaults ''search_settings'' ''max_results''
            | None \<Rightarrow> lookup2 defaults ''search_settings'' ''max_results'')"
    using s by (auto simp: s1_def lookup2_with_override split: option.splits)
  show "lookup2 (expected_settings req defaults) ''search_settings'' ''max_results'' =
           (case maxResults req of
              Some n \<Rightarrow> if 0 < n then Some (PyInt n)
                        else lookup2 defaults ''search_settings'' ''max_results''
            | None \<Rightarrow> lookup2 defaults ''search_settings'' ''max_results'')"
    using l1 by (simp add: e lookup2_with_override)
  have l2: "lookup2 s1 ''privacy_settings'' ''cache_enabled''
              = lookup2 defaults ''privacy_settings'' ''cache_enabled''"
    by (auto simp: s1_def lookup2_with_override split: option.splits)
  show "lookup2 (expected_settings req defaults) ''privacy_settings'' ''cache_enabled'' =
           (if noCache req = Some True then Some (PyBool False)
            else lookup2 defaults ''privacy_settings'' ''cache_enabled'')"
    using l2 p1 by (simp add: e lookup2_with_override)
  show "\<forall>k1 k2. (k1, k2) \<noteq> (''search_settings'', ''max_results'') \<and>
                  (k1, k2) \<noteq> (''privacy_settings'', ''cache_enabled'') \<longrightarrow>
                  lookup2 (expected_settings req defaults) k1 k2 = lookup2 defaults k1 k2"
  proof (intro allI impI)
    fix k1 k2 :: string
    assume ne: "(k1, k2) \<noteq> (''search_settings'', ''max_results'') \<and>
                (k1, k2) \<noteq> (''privacy_settings'', ''cache_enabled'')"
    then have "lookup2 s1 k1 k2 = lookup2 defaults k1 k2"
      by (auto simp: s1_def lookup2_with_override split: option.splits)
    with ne show "lookup2 (expected_settings req defaults) k1 k2 = lookup2 defaults k1 k2"
      by (auto simp: e lookup2_with_override)
  qed
  have "\<And>k v. map_of s1 k = Some (Inl v) \<longleftrightarrow> map_of defaults k = Some (Inl v)"
    by (auto simp: s1_def map_of_with_override_plain split: option.splits)
  then show "\<forall>k v. map_of (expected_settings req defaults) k = Some (Inl v) \<longleftrightarrow>
                 map_of defaults k = Some (Inl v)"
    by (simp add: e map_of_with_override_plain)
  have "map fst s1 = map fst defaults"
    by (auto simp: s1_def map_fst_with_override split: option.splits)
  then show "map fst (expected_settings req defaults) = map fst defaults"
    by (simp add: e map_fst_with_override)
qed

subsection \<open>What the handler leaves alone\<close>

lemma schedule_broadcast_store:
  "dicts (snd (schedule_broadcast env ev st)) = dicts st \<and>
   groups (snd (schedule_broadcast env ev st)) = groups st \<and>
   next_addr (snd (schedule_broadcast env ev st)) = next_addr st \<and>
   nlp_processor (snd (schedule_broadcast env ev st)) = nlp_processor st"
  by (simp add: schedule_broadcast_def split: option.split)

lemma stages_store:
  "dicts (snd (stages env refiner req st)) = dicts st \<and>
   groups (snd (stages env refiner req st)) = groups st \<and>
   next_addr (snd (stages env refiner req st)) = next_addr st \<and>
   nlp_processor (snd (stages env refiner req st)) = nlp_processor st"
  by (simp add: stages_def update_progress_def schedule_broadcast_def
           split: option.split sum.split)

lemma run_stages_store:
  "dicts (snd (run_stages env refiner req st)) = dicts st \<and>
   groups (snd (run_stages env refiner req st)) = groups st \<and>
   next_addr (snd (run_stages env refiner req st)) = next_addr st \<and>
   nlp_processor (snd (run_stages env refiner req st)) = nlp_processor st"
proof (cases "stages env refiner req st")
  case (Pair r st')
  from stages_store [of env refiner req st] Pair
  have s: "dicts st' = dicts st \<and> groups st' = groups st \<and> next_addr st' = next_addr st \<and>
           nlp_processor st' = nlp_processor st"
    by simp
  show ?thesis
  proof (cases r)
    case (Inr response)
    with Pair s show ?thesis by (simp add: run_stages_def)
  next
    case (Inl e)
    show ?thesis
    proof (cases "is_HTTPException e")
      case True
      then obtain code d where "e = HTTPException code d" by (cases e) simp_all
      with Pair Inl s show ?thesis by (simp add: run_stages_def)
    next
      case False
      then have "run_stages env refiner req st =
         (Inl (HTTPException 500 (str_exn env e)),
          try_pass (show_error env (py ''Refinement failed: '' @ str_exn env e) st'))"
        using Pair Inl by (cases e) (simp_all add: run_stages_def)
      then show ?thesis
        using s schedule_broadcast_store [of env "ErrorEvent (py ''Refinement failed: '' @ str_exn env e)" st']
        by (auto simp: show_error_def try_pass_def split: prod.splits sum.splits)
    qed
  qed
qed

lemma get_refiner_store:
  "dicts (snd (get_refiner env settings st)) = dicts st \<and>
   groups (snd (get_refiner env settings st)) = groups st \<and>
   next_addr (snd (get_refiner env settings st)) = next_addr st \<and>
   tasks (snd (get_refiner env settings st)) = tasks st"
  by (simp add: get_refiner_def Let_def split: option.split sum.split)

lemma refine_frame:
  "\<forall>b < next_addr st.
     dicts (snd (refine env req st)) b = dicts st b \<and>
     groups (snd (refine env req st)) b = groups st b"
proof (cases "manuscriptText req = [] \<or> strip (manuscriptText req) = []")
  case True
  then show ?thesis by (auto simp: refine_def)
next
  case False
  obtain settings st1 where rs: "request_settings env req st = (settings, st1)"
    by (cases "request_settings env req st") auto
  note f = request_settings_frame [OF rs]
  obtain r st2 where gr: "get_refiner env (Some settings) st1 = (r, st2)"
    by (cases "get_refiner env (Some settings) st1") auto
  have s2: "dicts st2 = dicts st1 \<and> groups st2 = groups st1"
    using get_refiner_store [of env "Some settings" st1] gr by simp
  show ?thesis
  proof (cases r)
    case (Inl e)
    then have "refine env req st = (Inl e, st2)"
      using False rs gr by (simp add: refine_def)
    then show ?thesis using f(2,3) s2 by simp
  next
    case (Inr refiner)
    then have "refine env req st = run_stages env refiner req st2"
      using False rs gr by (simp add: refine_def)
    then show ?thesis
      using f(2,3) s2 run_stages_store [of env refiner req st2] by simp
  qed
qed

text \<open>
  C6. Whatever the request and whatever the collaborators do (so whether the request
  succeeds or fails), the outer dict of \<open>DEFAULT_SETTINGS\<close> and the contents of
  the defaults are after \<open>refine\<close> what they were before it, and so is every
  dict object that existed before the request: the overrides are written to the
  objects the deep copy has made.
\<close>

theorem refine_preserves_defaults:
  assumes "defaults_allocated env st"
  shows "dicts (snd (refine env req st)) (DEFAULT_SETTINGS env) = dicts st (DEFAULT_SETTINGS env) \<and>
         read_settings (snd (refine env req st)) (DEFAULT_SETTINGS env)
           = read_settings st (DEFAULT_SETTINGS env) \<and>
         (\<forall>b < next_addr st.
            dicts (snd (refine env req st)) b = dicts st b \<and>
            groups (snd (refine env req st)) b = groups st b)"
proof -
  note f = refine_frame [of st env req]
  have d: "DEFAULT_SETTINGS env < next_addr st"
    and g: "\<forall>a \<in> set (group_addrs (dicts st (DEFAULT_SETTINGS env))). a < next_addr st"
    using assms by (simp_all add: defaults_allocated_def list_all_iff)
  have dd: "dicts (snd (refine env req st)) (DEFAULT_SETTINGS env) = dicts st (DEFAULT_SETTINGS env)"
    using f d by simp
  have "read_entries (groups (snd (refine env req st))) (dicts st (DEFAULT_SETTINGS env))
          = read_entries (groups st) (dicts st (DEFAULT_SETTINGS env))"
    by (rule read_entries_cong) (use f g in auto)
  with dd f show ?thesis by (simp add: read_settings_def)
qed

theorem refine_preserves_defaults_witness:
  "read_settings
     (snd (refine sample_env \<lparr>manuscriptText = py ''abc'', maxResults = Some 10, noCache = Some True\<rparr>
             sample_state)) 0
     = [(''search_settings'', Inr [(''max_results'', PyInt 20), (''timeout'', PyInt 30)]),
        (''privacy_settings'', Inr [(''cache_enabled'', PyBool True)]),
        (''version'', Inl (PyInt 1))] \<and>
   read_settings
     (snd (refine (sample_env\<lparr>NLPProcessor := (\<lambda>sv. Inl (OtherError (py ''no model'')))\<rparr>)
             \<lparr>manuscriptText = py ''abc'', maxResults = Some 10, noCache = Some True\<rparr>
             sample_state)) 0
     = [(''search_settings'', Inr [(''max_results'', PyInt 20), (''timeout'', PyInt 30)]),
        (''privacy_settings'', Inr [(''cache_enabled'', PyBool True)]),
        (''version'', Inl (PyInt 1))]"
proof -
  have a: "defaults_allocated (sample_env\<lparr>NLPProcessor := (\<lambda>sv. Inl (OtherError (py ''no model'')))\<rparr>) sample_state"
    by (simp add: defaults_allocated_def sample_env_def sample_state_def)
  have r: "read_settings sample_state 0
     = [(''search_settings'', Inr [(''max_results'', PyInt 20), (''timeout'', PyInt 30)]),
        (''privacy_settings'', Inr [(''cache_enabled'', PyBool True)]),
        (''version'', Inl (PyInt 1))]"
    by (simp add: read_settings_def read_entries_def entry_value_def sample_state_def)
  have d: "DEFAULT_SETTINGS sample_env = 0" by (simp add: sample_env_def)
  show ?thesis
    using refine_preserves_defaults [OF sample_allocated,
            of "\<lparr>manuscriptText = py ''abc'', maxResults = Some 10, noCache = Some True\<rparr>"]
          refine_preserves_defaults [OF a,
            of "\<lparr>manuscriptText = py ''abc'', maxResults = Some 10, noCache = Some True\<rparr>"]
    by (simp add: r d)
qed

subsection \<open>The refiner of a request\<close>

lemma get_refiner_job:
  assumes rs: "request_settings env req st = (settings, st1)"
  shows "get_refiner env (Some settings) st1 =
     (case nlp_processor st of
        None \<Rightarrow>
          (case NLPProcessor env (job_settings env req st) of
             Inl e \<Rightarrow>
               (Inl (HTTPException 503 (py ''NLP processor unavailable: '' @ str_exn env e)), st1)
           | Inr processor \<Rightarrow>
               (case DocumentRefiner env (job_settings env req st) processor of
                  Some e \<Rightarrow> (Inl e, st1\<lparr>nlp_processor := Some processor\<rparr>)
                | None \<Rightarrow>
                    (Inr \<lparr>refiner_settings = job_settings env req st,
                          refiner_nlp_processor = processor\<rparr>,
                     st1\<lparr>nlp_processor := Some processor\<rparr>)))
      | Some processor \<Rightarrow>
          (case DocumentRefiner env (job_settings env req st) processor of
             Some e \<Rightarrow> (Inl e, st1)
           | None \<Rightarrow>
               (Inr \<lparr>refiner_settings = job_settings env req st,
                     refiner_nlp_processor = processor\<rparr>, st1)))"
proof -
  have js: "job_settings env req st = read_settings st1 (settings_or_default env (Some settings) st1)"
    by (simp add: job_settings_def rs)
  show ?thesis
    unfolding get_refiner_def Let_def js request_settings_frame(4) [OF rs] ..
qed

lemma refine_nonblank:
  assumes "manuscriptText req \<noteq> [] \<and> strip (manuscriptText req) \<noteq> []"
    and "request_settings env req st = (settings, st1)"
  shows "refine env req st =
           (case get_refiner env (Some settings) st1 of
              (Inl e, st2) \<Rightarrow> (Inl e, st2)
            | (Inr refiner, st2) \<Rightarrow> run_stages env refiner req st2)"
  using assms by (simp add: refine_def)

lemma stages_text_only:
  assumes "manuscriptText req' = manuscriptText req"
  shows "stages env refiner req' st = stages env refiner req st"
  unfolding stages_def assms ..

lemma run_stages_text_only:
  assumes "manuscriptText req' = manuscriptText req"
  shows "run_stages env refiner req' st = run_stages env refiner req st"
  unfolding run_stages_def stages_text_only [OF assms] ..

lemma refine_same_settings:
  assumes "manuscriptText req' = manuscriptText req"
    and "request_settings env req' st = request_settings env req st"
  shows "refine env req' st = refine env req st"
proof -
  obtain settings st1 where rs: "request_settings env req st = (settings, st1)"
    by (cases "request_settings env req st") auto
  obtain r st2 where gr: "get_refiner env (Some settings) st1 = (r, st2)"
    by (cases "get_refiner env (Some settings) st1") auto
  show ?thesis
  proof (cases r)
    case (Inl e)
    then show ?thesis by (simp add: refine_def assms rs gr)
  next
    case (Inr refiner)
    then show ?thesis
      using run_stages_text_only [OF assms(1), of env refiner st2]
      by (simp add: refine_def assms rs gr)
  qed
qed

lemma job_settings_contents:
  assumes nonblank: "manuscriptText req \<noteq> [] \<and> strip (manuscriptText req) \<noteq> []"
    and alloc: "defaults_allocated env st" and unshared: "defaults_unshared env st"
    and s: "\<exists>g. map_of (read_settings st (DEFAULT_SETTINGS env)) ''search_settings'' = Some (Inr g)"
    and p: "\<exists>g. map_of (read_settings st (DEFAULT_SETTINGS env)) ''privacy_settings'' = Some (Inr g)"
  shows "job_settings env req st = expected_settings req (read_settings st (DEFAULT_SETTINGS env)) \<and>
    lookup2 (job_settings env req st) ''search_settings'' ''max_results'' =
      (case maxResults req of
         Some n \<Rightarrow> if 0 < n then Some (PyInt n)
                   else lookup2 (read_settings st (DEFAULT_SETTINGS env)) ''search_settings'' ''max_results''
       | None \<Rightarrow> lookup2 (read_settings st (DEFAULT_SETTINGS env)) ''search_settings'' ''max_results'') \<and>
    lookup2 (job_settings env req st) ''privacy_settings'' ''cache_enabled'' =
      (if noCache req = Some True then Some (PyBool False)
       else lookup2 (read_settings st (DEFAULT_SETTINGS env)) ''privacy_settings'' ''cache_enabled'') \<and>
    (\<forall>k1 k2. (k1, k2) \<noteq> (''search_settings'', ''max_results'') \<and>
              (k1, k2) \<noteq> (''privacy_settings'', ''cache_enabled'') \<longrightarrow>
              lookup2 (job_settings env req st) k1 k2
                = lookup2 (read_settings st (DEFAULT_SETTINGS env)) k1 k2) \<and>
    (\<forall>k v. map_of (job_settings env req st) k = Some (Inl v) \<longleftrightarrow>
             map_of (read_settings st (DEFAULT_SETTINGS env)) k = Some (Inl v)) \<and>
    map fst (job_settings env req st) = map fst (read_settings st (DEFAULT_SETTINGS env)) \<and>
    (\<forall>refiner st2.
       get_refiner env (Some (fst (request_settings env req st))) (snd (request_settings env req st))
         = (Inr refiner, st2) \<longrightarrow>
       refiner_settings refiner = job_settings env req st \<and>
       refine env req st = run_stages env refiner req st2) \<and>
    (\<forall>n \<le> 0. refine env (req\<lparr>maxResults := Some n\<rparr>) st = refine env (req\<lparr>maxResults := None\<rparr>) st) \<and>
    refine env (req\<lparr>noCache := Some False\<rparr>) st = refine env (req\<lparr>noCache := None\<rparr>) st"
proof -
  define defaults where "defaults = read_settings st (DEFAULT_SETTINGS env)"
  have js: "job_settings env req st = expected_settings req defaults"
    unfolding defaults_def by (rule job_settings_expected [OF alloc unshared])
  note facts = expected_settings_facts [OF s p, of req, folded defaults_def]
  have link: "\<forall>refiner st2.
       get_refiner env (Some (fst (request_settings env req st))) (snd (request_settings env req st))
         = (Inr refiner, st2) \<longrightarrow>
       refiner_settings refiner = job_settings env req st \<and>
       refine env req st = run_stages env refiner req st2"
  proof (intro allI impI)
    fix refiner st2
    obtain settings st1 where rs: "request_settings env req st = (settings, st1)"
      by (cases "request_settings env req st") auto
    assume "get_refiner env (Some (fst (request_settings env req st))) (snd (request_settings env req st))
         = (Inr refiner, st2)"
    then have gr: "get_refiner env (Some settings) st1 = (Inr refiner, st2)" by (simp add: rs)
    have "refiner_settings refiner = job_settings env req st"
      using gr unfolding get_refiner_job [OF rs]
      by (auto split: option.splits sum.splits)
    moreover have "refine env req st = run_stages env refiner req st2"
      using refine_nonblank [OF nonblank rs] gr by simp
    ultimately show "refiner_settings refiner = job_settings env req st \<and>
       refine env req st = run_stages env refiner req st2" ..
  qed
  have neg: "\<forall>n \<le> 0. refine env (req\<lparr>maxResults := Some n\<rparr>) st = refine env (req\<lparr>maxResults := None\<rparr>) st"
  proof (intro allI impI)
    fix n :: int
    assume "n \<le> 0"
    then have "request_settings env (req\<lparr>maxResults := Some n\<rparr>) st
                 = request_settings env (req\<lparr>maxResults := None\<rparr>) st"
      by (simp add: request_settings_def)
    then show "refine env (req\<lparr>maxResults := Some n\<rparr>) st = refine env (req\<lparr>maxResults := None\<rparr>) st"
      by (intro refine_same_settings) simp_all
  qed
  have "request_settings env (req\<lparr>noCache := Some False\<rparr>) st
                 = request_settings env (req\<lparr>noCache := None\<rparr>) st"
    by (simp add: request_settings_def)
  then have nc: "refine env (req\<lparr>noCache := Some False\<rparr>) st = refine env (req\<lparr>noCache := None\<rparr>) st"
    by (intro refine_same_settings) simp_all
  show ?thesis
    unfolding js defaults_def [symmetric]
    using facts link [unfolded js defaults_def [symmetric]] neg nc
    by - (intro conjI; (rule refl | assumption))
qed

lemma request_settings_fresh:
  assumes "request_settings env req st = (settings, st3)"
  shows "\<forall>a \<in> set (group_addrs (dicts st3 settings)). next_addr st \<le> a"
proof -
  from assms obtain st1 st2 where dc: "deepcopy (DEFAULT_SETTINGS env) st = (settings, st1)"
    and st2: "st2 = (case maxResults req of
                  Some n \<Rightarrow>
                    if 0 < n
                    then try_pass (setitem2 settings ''search_settings'' ''max_results'' (PyInt n) st1)
                    else st1
                | None \<Rightarrow> st1)"
    and st3: "st3 = (case noCache req of
                  Some b \<Rightarrow>
                    if b
                    then try_pass (setitem2 settings ''privacy_settings'' ''cache_enabled'' (PyBool False) st2)
                    else st2
                | None \<Rightarrow> st2)"
    by (rule request_settings_unfold)
  have "dicts st2 = dicts st1"
    using setitem2_frame [of settings _ _ _ st1] by (simp add: st2 split: option.splits)
  moreover have "dicts st3 = dicts st2"
    using setitem2_frame [of settings _ _ _ st2] by (simp add: st3 split: option.splits)
  ultimately show ?thesis using deepcopy_frame(7) [OF dc] by simp
qed

lemma request_settings_isolated:
  assumes alloc: "defaults_allocated env st"
    and s: "\<exists>g. map_of (read_settings st (DEFAULT_SETTINGS env)) ''search_settings'' = Some (Inr g)"
  shows "next_addr st \<le> fst (request_settings env req st) \<and>
    fst (request_settings env req st) \<noteq> DEFAULT_SETTINGS env \<and>
    (\<forall>a \<in> set (group_addrs (dicts (snd (request_settings env req st))
                                 (fst (request_settings env req st)))). next_addr st \<le> a) \<and>
    set (group_addrs (dicts (snd (request_settings env req st)) (fst (request_settings env req st))))
      \<inter> set (group_addrs (dicts st (DEFAULT_SETTINGS env))) = {} \<and>
    job_settings env req st
      = read_settings (snd (request_settings env req st)) (fst (request_settings env req st)) \<and>
    dicts (snd (request_settings env req st)) (DEFAULT_SETTINGS env) = dicts st (DEFAULT_SETTINGS env) \<and>
    read_settings (snd (request_settings env req st)) (DEFAULT_SETTINGS env)
      = read_settings st (DEFAULT_SETTINGS env) \<and>
    read_settings (snd (refine env req st)) (DEFAULT_SETTINGS env)
      = read_settings st (DEFAULT_SETTINGS env)"
proof -
  obtain settings st1 where rs: "request_settings env req st = (settings, st1)"
    by (cases "request_settings env req st") auto
  note f = request_settings_frame [OF rs]
  note fr = request_settings_fresh [OF rs]
  have d: "DEFAULT_SETTINGS env < next_addr st"
    and g: "\<forall>a \<in> set (group_addrs (dicts st (DEFAULT_SETTINGS env))). a < next_addr st"
    using alloc by (simp_all add: defaults_allocated_def list_all_iff)
  have n1: "next_addr st \<le> settings" by (rule f(1))
  have n2: "settings \<noteq> DEFAULT_SETTINGS env" using n1 d by simp
  have n4: "set (group_addrs (dicts st1 settings)) \<inter> set (group_addrs (dicts st (DEFAULT_SETTINGS env))) = {}"
    using fr g by fastforce
  have "read_settings st (DEFAULT_SETTINGS env) \<noteq> []" using s by auto
  then have "dicts st (DEFAULT_SETTINGS env) \<noteq> []"
    by (simp add: read_settings_def read_entries_def)
  then have "dicts st1 settings \<noteq> []" using f(6) by auto
  then have n5: "job_settings env req st = read_settings st1 settings"
    by (simp add: job_settings_def rs settings_or_default_def)
  have n6: "dicts st1 (DEFAULT_SETTINGS env) = dicts st (DEFAULT_SETTINGS env)"
    using f(2) d by simp
  have "read_entries (groups st1) (dicts st (DEFAULT_SETTINGS env))
          = read_entries (groups st) (dicts st (DEFAULT_SETTINGS env))"
    by (rule read_entries_cong) (use f(3) g in auto)
  then have n7: "read_settings st1 (DEFAULT_SETTINGS env) = read_settings st (DEFAULT_SETTINGS env)"
    using n6 by (simp add: read_settings_def)
  note rf = refine_frame [of st env req]
  have "read_entries (groups (snd (refine env req st))) (dicts st (DEFAULT_SETTINGS env))
          = read_entries (groups st) (dicts st (DEFAULT_SETTINGS env))"
    by (rule read_entries_cong) (use rf g in auto)
  then have n8: "read_settings (snd (refine env req st)) (DEFAULT_SETTINGS env)
                   = read_settings st (DEFAULT_SETTINGS env)"
    using rf d by (simp add: read_settings_def)
  show ?thesis
    using n1 n2 fr n4 n5 n6 n7 n8 by (simp add: rs)
qed

text \<open>
  C5. For a request with text, and defaults that are allocated, unshared and have the
  groups \<open>search_settings\<close> and \<open>privacy_settings\<close>: the settings handed to the
  constructors, and held by the refiner that runs the job, are the defaults with
  \<open>max_results\<close> replaced exactly when \<open>maxResults\<close> is a positive integer and
  \<open>cache_enabled\<close> set to false exactly when \<open>noCache\<close> is true; every other
  value is the default one. A \<open>maxResults\<close> that is not positive and a \<open>noCache\<close>
  that is false are treated as absent: the request runs as if they had not been sent,
  and no error comes of them. These settings are read from a copy: the outer dict
  and every inner dict of the settings object are objects made during the request,
  none of them an object of the defaults, and the defaults hold the same values
  when the settings are handed over, and after the request, as before it.
\<close>

theorem job_settings_overrides:
  assumes nonblank: "manuscriptText req \<noteq> [] \<and> strip (manuscriptText req) \<noteq> []"
    and alloc: "defaults_allocated env st" and unshared: "defaults_unshared env st"
    and s: "\<exists>g. map_of (read_settings st (DEFAULT_SETTINGS env)) ''search_settings'' = Some (Inr g)"
    and p: "\<exists>g. map_of (read_settings st (DEFAULT_SETTINGS env)) ''privacy_settings'' = Some (Inr g)"
  shows "job_settings env req st = expected_settings req (read_settings st (DEFAULT_SETTINGS env)) \<and>
    lookup2 (job_settings env req st) ''search_settings'' ''max_results'' =
      (case maxResults req of
         Some n \<Rightarrow> if 0 < n then Some (PyInt n)
                   else lookup2 (read_settings st (DEFAULT_SETTINGS env)) ''search_settings'' ''max_results''
       | None \<Rightarrow> lookup2 (read_settings st (DEFAULT_SETTINGS env)) ''search_settings'' ''max_results'') \<and>
    lookup2 (job_settings env req st) ''privacy_settings'' ''cache_enabled'' =
      (if noCache req = Some True then Some (PyBool False)
       else lookup2 (read_settings st (DEFAULT_SETTINGS env)) ''privacy_settings'' ''cache_enabled'') \<and>
    (\<forall>k1 k2. (k1, k2) \<noteq> (''search_settings'', ''max_results'') \<and>
              (k1, k2) \<noteq> (''privacy_settings'', ''cache_enabled'') \<longrightarrow>
              lookup2 (job_settings env req st) k1 k2
                = lookup2 (read_settings st (DEFAULT_SETTINGS env)) k1 k2) \<and>
    (\<forall>k v. map_of (job_settings env req st) k = Some (Inl v) \<longleftrightarrow>
             map_of (read_settings st (DEFAULT_SETTINGS env)) k = Some (Inl v)) \<and>
    map fst (job_settings env req st) = map fst (read_settings st (DEFAULT_SETTINGS env)) \<and>
    (\<forall>refiner st2.
       get_refiner env (Some (fst (request_settings env req st))) (snd (request_settings env req st))
         = (Inr refiner, st2) \<longrightarrow>
       refiner_settings refiner = job_settings env req st \<and>
       refine env req st = run_stages env refiner req st2) \<and>
    (\<forall>n \<le> 0. refine env (req\<lparr>maxResults := Some n\<rparr>) st = refine env (req\<lparr>maxResults := None\<rparr>) st) \<and>
    refine env (req\<lparr>noCache := Some False\<rparr>) st = refine env (req\<lparr>noCache := None\<rparr>) st \<and>
    next_addr st \<le> fst (request_settings env req st) \<and>
    fst (request_settings env req st) \<noteq> DEFAULT_SETTINGS env \<and>
    (\<forall>a \<in> set (group_addrs (dicts (snd (request_settings env req st))
                                 (fst (request_settings env req st)))). next_addr st \<le> a) \<and>
    set (group_addrs (dicts (snd (request_settings env req st)) (fst (request_settings env req st))))
      \<inter> set (group_addrs (dicts st (DEFAULT_SETTINGS env))) = {} \<and>
    job_settings env req st
      = read_settings (snd (request_settings env req st)) (fst (request_settings env req st)) \<and>
    dicts (snd (request_settings env req st)) (DEFAULT_SETTINGS env) = dicts st (DEFAULT_SETTINGS env) \<and>
    read_settings (snd (request_settings env req st)) (DEFAULT_SETTINGS env)
      = read_settings st (DEFAULT_SETTINGS env) \<and>
    read_settings (snd (refine env req st)) (DEFAULT_SETTINGS env)
      = read_settings st (DEFAULT_SETTINGS env)"
  using job_settings_contents [OF nonblank alloc unshared s p]
    request_settings_isolated [OF alloc s, of req]
  by - (elim conjE, intro conjI; assumption)

theorem job_settings_overrides_witness:
  "job_settings sample_env \<lparr>manuscriptText = py ''abc'', maxResults = Some 10, noCache = Some True\<rparr>
     sample_state
     = [(''search_settings'', Inr [(''max_results'', PyInt 10), (''timeout'', PyInt 30)]),
        (''privacy_settings'', Inr [(''cache_enabled'', PyBool False)]),
        (''version'', Inl (PyInt 1))] \<and>
   job_settings sample_env \<lparr>manuscriptText = py ''abc'', maxResults = Some (- 5), noCache = None\<rparr>
     sample_state
     = [(''search_settings'', Inr [(''max_results'', PyInt 20), (''timeout'', PyInt 30)]),
        (''privacy_settings'', Inr [(''cache_enabled'', PyBool True)]),
        (''version'', Inl (PyInt 1))] \<and>
   fst (request_settings sample_env
          \<lparr>manuscriptText = py ''abc'', maxResults = Some 10, noCache = Some True\<rparr> sample_state) = 5 \<and>
   group_addrs
     (dicts (snd (request_settings sample_env
                    \<lparr>manuscriptText = py ''abc'', maxResults = Some 10, noCache = Some True\<rparr>
                    sample_state)) 5) = [3, 4] \<and>
   read_settings
     (snd (request_settings sample_env
             \<lparr>manuscriptText = py ''abc'', maxResults = Some 10, noCache = Some True\<rparr> sample_state)) 0
     = [(''search_settings'', Inr [(''max_results'', PyInt 20), (''timeout'', PyInt 30)]),
        (''privacy_settings'', Inr [(''cache_enabled'', PyBool True)]),
        (''version'', Inl (PyInt 1))]"
proof -
  define req1 where "req1 = \<lparr>manuscriptText = py ''abc'', maxResults = Some 10, noCache = Some True\<rparr>"
  define req2 where "req2 = \<lparr>manuscriptText = py ''abc'', maxResults = Some (- 5), noCache = None\<rparr>"
  have s: "\<exists>g. map_of (read_settings sample_state (DEFAULT_SETTINGS sample_env)) ''search_settings''
             = Some (Inr g)"
    and p: "\<exists>g. map_of (read_settings sample_state (DEFAULT_SETTINGS sample_env)) ''privacy_settings''
             = Some (Inr g)"
    by (simp_all add: sample_defaults)
  have t1: "manuscriptText req1 \<noteq> [] \<and> strip (manuscriptText req1) \<noteq> []"
    unfolding req1_def by (rule sample_text)
  have t2: "manuscriptText req2 \<noteq> [] \<and> strip (manuscriptText req2) \<noteq> []"
    unfolding req2_def by (rule sample_text)
  note o1 = job_settings_overrides [OF t1 sample_allocated sample_unshared s p]
  note o2 = job_settings_overrides [OF t2 sample_allocated sample_unshared s p]
  have j1: "job_settings sample_env req1 sample_state
     = [(''search_settings'', Inr [(''max_results'', PyInt 10), (''timeout'', PyInt 30)]),
        (''privacy_settings'', Inr [(''cache_enabled'', PyBool False)]),
        (''version'', Inl (PyInt 1))]"
    unfolding o1 [THEN conjunct1]
    by (simp add: sample_defaults expected_settings_def with_override_def req1_def)
  have j2: "job_settings sample_env req2 sample_state
     = [(''search_settings'', Inr [(''max_results'', PyInt 20), (''timeout'', PyInt 30)]),
        (''privacy_settings'', Inr [(''cache_enabled'', PyBool True)]),
        (''version'', Inl (PyInt 1))]"
    unfolding o2 [THEN conjunct1]
    by (simp add: sample_defaults expected_settings_def with_override_def req2_def)
  have a: "fst (request_settings sample_env req1 sample_state) = 5"
    by (simp add: handler_defs sample_defs req1_def)
  have g: "group_addrs (dicts (snd (request_settings sample_env req1 sample_state)) 5) = [3, 4]"
    by (simp add: handler_defs sample_defs req1_def)
  have d: "read_settings (snd (request_settings sample_env req1 sample_state)) 0
     = [(''search_settings'', Inr [(''max_results'', PyInt 20), (''timeout'', PyInt 30)]),
        (''privacy_settings'', Inr [(''cache_enabled'', PyBool True)]),
        (''version'', Inl (PyInt 1))]"
    by (simp add: handler_defs sample_defs req1_def)
  from j1 j2 a g d show ?thesis
    unfolding req1_def req2_def by (intro conjI)
qed

subsection \<open>The shared processor\<close>

lemma refine_processor:
  assumes nonblank: "manuscriptText req \<noteq> [] \<and> strip (manuscriptText req) \<noteq> []"
  shows "nlp_processor (snd (refine env req st)) =
           (case nlp_processor st of
              Some processor \<Rightarrow> Some processor
            | None \<Rightarrow>
                (case NLPProcessor env (job_settings env req st) of
                   Inl e \<Rightarrow> None
                 | Inr processor \<Rightarrow> Some processor))"
proof -
  obtain settings st1 where rs: "request_settings env req st = (settings, st1)"
    by (cases "request_settings env req st") auto
  have n1: "nlp_processor st1 = nlp_processor st"
    by (rule request_settings_frame(4) [OF rs])
  obtain r st2 where gr: "get_refiner env (Some settings) st1 = (r, st2)"
    by (cases "get_refiner env (Some settings) st1") auto
  have n2: "nlp_processor st2 =
           (case nlp_processor st of
              Some processor \<Rightarrow> Some processor
            | None \<Rightarrow>
                (case NLPProcessor env (job_settings env req st) of
                   Inl e \<Rightarrow> None
                 | Inr processor \<Rightarrow> Some processor))"
    using gr n1 unfolding get_refiner_job [OF rs]
    by (auto split: option.splits sum.splits)
  show ?thesis
  proof (cases r)
    case (Inl e)
    then have "refine env req st = (Inl e, st2)"
      using refine_nonblank [OF nonblank rs] gr by simp
    with n2 show ?thesis by simp
  next
    case (Inr refiner)
    then have "refine env req st = run_stages env refiner req st2"
      using refine_nonblank [OF nonblank rs] gr by simp
    with n2 run_stages_store [of env refiner req st2] show ?thesis by simp
  qed
qed

lemma stages_succeed:
  assumes "\<forall>ev. create_task env ev = None"
    and "refine_document env refiner (manuscriptText req) = Inr processed"
    and "generate_bibliography_text env refiner = Inr bibliography_text"
    and "generate_bibtex_content env refiner = Inr bibtex_content"
  shows "stages env refiner req st =
           (Inr \<lparr>processedText = processed, bibliographyText = bibliography_text,
                 bibtex = bibtex_content\<rparr>,
            st\<lparr>tasks := tasks st @
                   [ProgressEvent 0 (py ''Starting DeepSearch refinement...''),
                    ProgressEvent 0.98 (py ''Generating bibliography and BibTeX...''),
                    ProgressEvent 1 (py ''DeepSearch complete'')]\<rparr>)"
  using assms by (simp add: stages_def update_progress_def schedule_broadcast_def)

text \<open>
  C7. When no processor is cached and \<open>NLPProcessor\<close> raises \<open>e\<close> for a request
  with text, \<open>refine\<close> raises \<open>HTTPException\<close> with status 503 and a detail that
  carries \<open>str(e)\<close>; it schedules no broadcast at all, so no error event, and
  leaves \<open>nlp_processor\<close> at \<open>None\<close>. The next request with text therefore
  calls the constructor again: when the constructor then succeeds the processor is
  cached, and when the other collaborators succeed too that request returns its
  response.
\<close>

theorem refine_engine_unavailable:
  assumes nonblank: "manuscriptText req \<noteq> [] \<and> strip (manuscriptText req) \<noteq> []"
    and cold: "nlp_processor st = None"
    and fails: "NLPProcessor env (job_settings env req st) = Inl e"
  shows "fst (refine env req st)
           = Inl (HTTPException 503 (py ''NLP processor unavailable: '' @ str_exn env e)) \<and>
         tasks (snd (refine env req st)) = tasks st \<and>
         nlp_processor (snd (refine env req st)) = None \<and>
         (manuscriptText req' \<noteq> [] \<and> strip (manuscriptText req') \<noteq> [] \<and>
          NLPProcessor env' (job_settings env' req' (snd (refine env req st))) = Inr processor \<longrightarrow>
            nlp_processor (snd (refine env' req' (snd (refine env req st)))) = Some processor \<and>
            (DocumentRefiner env' (job_settings env' req' (snd (refine env req st))) processor = None \<and>
             (\<forall>ev. create_task env' ev = None) \<and>
             refine_document env'
               \<lparr>refiner_settings = job_settings env' req' (snd (refine env req st)),
                refiner_nlp_processor = processor\<rparr> (manuscriptText req') = Inr processed \<and>
             generate_bibliography_text env'
               \<lparr>refiner_settings = job_settings env' req' (snd (refine env req st)),
                refiner_nlp_processor = processor\<rparr> = Inr bibliography_text \<and>
             generate_bibtex_content env'
               \<lparr>refiner_settings = job_settings env' req' (snd (refine env req st)),
                refiner_nlp_processor = processor\<rparr> = Inr bibtex_content \<longrightarrow>
             fst (refine env' req' (snd (refine env req st)))
               = Inr \<lparr>processedText = processed, bibliographyText = bibliography_text,
                      bibtex = bibtex_content\<rparr>))"
proof -
  obtain settings st1 where rs: "request_settings env req st = (settings, st1)"
    by (cases "request_settings env req st") auto
  have gr: "get_refiner env (Some settings) st1
              = (Inl (HTTPException 503 (py ''NLP processor unavailable: '' @ str_exn env e)), st1)"
    unfolding get_refiner_job [OF rs] by (simp add: cold fails)
  have res: "refine env req st
               = (Inl (HTTPException 503 (py ''NLP processor unavailable: '' @ str_exn env e)), st1)"
    using refine_nonblank [OF nonblank rs] gr by simp
  have t: "tasks st1 = tasks st" and n: "nlp_processor st1 = None"
    using request_settings_frame(4,5) [OF rs] cold by simp_all
  have retry: "nlp_processor (snd (refine env' req' st1)) = Some processor \<and>
            (DocumentRefiner env' (job_settings env' req' st1) processor = None \<and>
             (\<forall>ev. create_task env' ev = None) \<and>
             refine_document env'
               \<lparr>refiner_settings = job_settings env' req' st1,
                refiner_nlp_processor = processor\<rparr> (manuscriptText req') = Inr processed \<and>
             generate_bibliography_text env'
               \<lparr>refiner_settings = job_settings env' req' st1,
                refiner_nlp_processor = processor\<rparr> = Inr bibliography_text \<and>
             generate_bibtex_content env'
               \<lparr>refiner_settings = job_settings env' req' st1,
                refiner_nlp_processor = processor\<rparr> = Inr bibtex_content \<longrightarrow>
             fst (refine env' req' st1)
               = Inr \<lparr>processedText = processed, bibliographyText = bibliography_text,
                      bibtex = bibtex_content\<rparr>)"
    if nb': "manuscriptText req' \<noteq> [] \<and> strip (manuscriptText req') \<noteq> []"
      and ok: "NLPProcessor env' (job_settings env' req' st1) = Inr processor"
  proof (intro conjI impI)
    show "nlp_processor (snd (refine env' req' st1)) = Some processor"
      using refine_processor [OF nb', of env' st1] n ok by simp
  next
    assume a: "DocumentRefiner env' (job_settings env' req' st1) processor = None \<and>
             (\<forall>ev. create_task env' ev = None) \<and>
             refine_document env'
               \<lparr>refiner_settings = job_settings env' req' st1,
                refiner_nlp_processor = processor\<rparr> (manuscriptText req') = Inr processed \<and>
             generate_bibliography_text env'
               \<lparr>refiner_settings = job_settings env' req' st1,
                refiner_nlp_processor = processor\<rparr> = Inr bibliography_text \<and>
             generate_bibtex_content env'
               \<lparr>refiner_settings = job_settings env' req' st1,
                refiner_nlp_processor = processor\<rparr> = Inr bibtex_content"
    obtain settings' st1' where rs': "request_settings env' req' st1 = (settings', st1')"
      by (cases "request_settings env' req' st1") auto
    have gr': "get_refiner env' (Some settings') st1'
                 = (Inr \<lparr>refiner_settings = job_settings env' req' st1,
                         refiner_nlp_processor = processor\<rparr>,
                    st1'\<lparr>nlp_processor := Some processor\<rparr>)"
      unfolding get_refiner_job [OF rs'] using a by (simp add: n ok)
    have "refine env' req' st1
            = run_stages env' \<lparr>refiner_settings = job_settings env' req' st1,
                               refiner_nlp_processor = processor\<rparr> req'
                (st1'\<lparr>nlp_processor := Some processor\<rparr>)"
      using refine_nonblank [OF nb' rs'] gr' by simp
    then show "fst (refine env' req' st1)
               = Inr \<lparr>processedText = processed, bibliographyText = bibliography_text,
                      bibtex = bibtex_content\<rparr>"
      using a by (simp add: run_stages_def stages_succeed)
  qed
  show ?thesis
    using retry by (simp add: res t n)
qed

theorem refine_engine_unavailable_witness:
  "fst (refine (sample_env\<lparr>NLPProcessor := (\<lambda>sv. Inl (OtherError (py ''no model'')))\<rparr>)
          \<lparr>manuscriptText = py ''abc'', maxResults = Some 10, noCache = Some True\<rparr> sample_state)
     = Inl (HTTPException 503 (py ''NLP processor unavailable: no model'')) \<and>
   tasks (snd (refine (sample_env\<lparr>NLPProcessor := (\<lambda>sv. Inl (OtherError (py ''no model'')))\<rparr>)
          \<lparr>manuscriptText = py ''abc'', maxResults = Some 10, noCache = Some True\<rparr> sample_state))
     = [] \<and>
   nlp_processor (snd (refine (sample_env\<lparr>NLPProcessor := (\<lambda>sv. Inl (OtherError (py ''no model'')))\<rparr>)
          \<lparr>manuscriptText = py ''abc'', maxResults = Some 10, noCache = Some True\<rparr> sample_state))
     = None \<and>
   nlp_processor
     (snd (refine sample_env \<lparr>manuscriptText = py ''abc'', maxResults = Some 10, noCache = Some True\<rparr>
        (snd (refine (sample_env\<lparr>NLPProcessor := (\<lambda>sv. Inl (OtherError (py ''no model'')))\<rparr>)
                \<lparr>manuscriptText = py ''abc'', maxResults = Some 10, noCache = Some True\<rparr> sample_state))))
     = Some [(''search_settings'', Inr [(''max_results'', PyInt 10), (''timeout'', PyInt 30)]),
             (''privacy_settings'', Inr [(''cache_enabled'', PyBool False)]),
             (''version'', Inl (PyInt 1))] \<and>
   fst (refine sample_env \<lparr>manuscriptText = py ''abc'', maxResults = Some 10, noCache = Some True\<rparr>
        (snd (refine (sample_env\<lparr>NLPProcessor := (\<lambda>sv. Inl (OtherError (py ''no model'')))\<rparr>)
                \<lparr>manuscriptText = py ''abc'', maxResults = Some 10, noCache = Some True\<rparr> sample_state)))
     = Inr \<lparr>processedText = py ''abc.'', bibliographyText = py ''[1]'', bibtex = py ''@article''\<rparr>"
proof -
  define req where "req = \<lparr>manuscriptText = py ''abc'', maxResults = Some 10, noCache = Some True\<rparr>"
  define env where "env = sample_env\<lparr>NLPProcessor := (\<lambda>sv. Inl (OtherError (py ''no model'')))\<rparr>"
  have h1: "manuscriptText req \<noteq> [] \<and> strip (manuscriptText req) \<noteq> []"
    by (simp add: req_def sample_defs)
  have h2: "nlp_processor sample_state = None" by (simp add: sample_state_def)
  have h3: "NLPProcessor env (job_settings env req sample_state) = Inl (OtherError (py ''no model''))"
    by (simp add: env_def sample_env_def)
  have h4: "NLPProcessor sample_env (job_settings sample_env req (snd (refine env req sample_state)))
              = Inr (job_settings sample_env req (snd (refine env req sample_state)))"
    by (simp add: sample_env_def)
  note t = refine_engine_unavailable [OF h1 h2 h3, of req sample_env
      "job_settings sample_env req (snd (refine env req sample_state))"
      "py ''abc.''" "py ''[1]''" "py ''@article''"]
  have js: "job_settings sample_env req (snd (refine env req sample_state))
     = [(''search_settings'', Inr [(''max_results'', PyInt 10), (''timeout'', PyInt 30)]),
             (''privacy_settings'', Inr [(''cache_enabled'', PyBool False)]),
             (''version'', Inl (PyInt 1))]"
    by (simp add: handler_defs sample_defs req_def env_def)
  have ok: "DocumentRefiner sample_env x y = None \<and> (\<forall>ev. create_task sample_env ev = None) \<and>
            refine_document sample_env r (manuscriptText req) = Inr (py ''abc.'') \<and>
            generate_bibliography_text sample_env r = Inr (py ''[1]'') \<and>
            generate_bibtex_content sample_env r = Inr (py ''@article'')" for x y r
    by (simp add: sample_defs req_def)
  have se: "str_exn env (OtherError (py ''no model'')) = py ''no model''"
    by (simp add: env_def sample_env_def)
  have ts: "tasks sample_state = []" by (simp add: sample_state_def)
  have cat: "py ''NLP processor unavailable: '' @ py ''no model''
               = py ''NLP processor unavailable: no model''"
    by (simp add: py_def)
  show ?thesis
    using t h1 h4 ok unfolding js
    by (simp add: req_def [symmetric] env_def [symmetric] se ts cat)
qed

subsection \<open>Failures of the stages\<close>

lemma refine_acquire:
  assumes "manuscriptText req \<noteq> [] \<and> strip (manuscriptText req) \<noteq> []"
  shows "refine env req st =
           (case acquire_refiner env req st of
              (Inl e, st2) \<Rightarrow> (Inl e, st2)
            | (Inr refiner, st2) \<Rightarrow> run_stages env refiner req st2)"
  using assms by (simp add: refine_def acquire_refiner_def split: prod.splits)

lemma stages_response:
  assumes "stages env refiner req st = (Inr response, st')"
  shows "refine_document env refiner (manuscriptText req) = Inr (processedText response) \<and>
         generate_bibliography_text env refiner = Inr (bibliographyText response) \<and>
         generate_bibtex_content env refiner = Inr (bibtex response)"
  using assms by (auto simp: stages_def split: prod.splits sum.splits)

lemma run_stages_response:
  assumes "fst (run_stages env refiner req st) = Inr response"
  shows "\<exists>st'. stages env refiner req st = (Inr response, st')"
proof (cases "stages env refiner req st")
  case (Pair r st')
  show ?thesis
  proof (cases r)
    case (Inr response')
    with Pair assms show ?thesis by (simp add: run_stages_def)
  next
    case (Inl e)
    with Pair assms show ?thesis by (cases e) (simp_all add: run_stages_def)
  qed
qed

text \<open>
  C8 (as the code has it). Once the refiner is acquired: when a statement of the
  \<open>try\<close> body raises an exception \<open>e\<close> that is not an \<open>HTTPException\<close>,
  \<open>refine\<close> tries to schedule the error event \<open>Refinement failed: e\<close>, goes on
  whether or not that worked, and raises \<open>HTTPException\<close> with status 500 and
  detail \<open>str(e)\<close>. When \<open>e\<close> is an \<open>HTTPException\<close> it is raised again as
  it is, and nothing is scheduled for it. A response is returned only when all three
  methods of the refiner returned, and it holds exactly their three results.
\<close>

theorem refine_stage_failure:
  assumes nonblank: "manuscriptText req \<noteq> [] \<and> strip (manuscriptText req) \<noteq> []"
    and acquired: "acquire_refiner env req st = (Inr refiner, st2)"
  shows "(\<forall>e st3. stages env refiner req st2 = (Inl e, st3) \<longrightarrow>
            (\<not> is_HTTPException e \<longrightarrow>
               fst (refine env req st) = Inl (HTTPException 500 (str_exn env e)) \<and>
               tasks (snd (refine env req st)) =
                 (case create_task env (ErrorEvent (py ''Refinement failed: '' @ str_exn env e)) of
                    None \<Rightarrow> tasks st3 @ [ErrorEvent (py ''Refinement failed: '' @ str_exn env e)]
                  | Some e' \<Rightarrow> tasks st3)) \<and>
            (is_HTTPException e \<longrightarrow> refine env req st = (Inl e, st3))) \<and>
         (\<forall>response. fst (refine env req st) = Inr response \<longrightarrow>
            refine_document env refiner (manuscriptText req) = Inr (processedText response) \<and>
            generate_bibliography_text env refiner = Inr (bibliographyText response) \<and>
            generate_bibtex_content env refiner = Inr (bibtex response))"
proof -
  have r: "refine env req st = run_stages env refiner req st2"
    using refine_acquire [OF nonblank, of env st] acquired by simp
  show ?thesis
  proof (intro conjI allI impI)
    fix e st3
    assume s: "stages env refiner req st2 = (Inl e, st3)" and ne: "\<not> is_HTTPException e"
    have rs: "run_stages env refiner req st2 =
         (Inl (HTTPException 500 (str_exn env e)),
          try_pass (show_error env (py ''Refinement failed: '' @ str_exn env e) st3))"
      using s ne by (cases e) (simp_all add: run_stages_def)
    show "fst (refine env req st) = Inl (HTTPException 500 (str_exn env e))"
      by (simp add: r rs)
    show "tasks (snd (refine env req st)) =
                 (case create_task env (ErrorEvent (py ''Refinement failed: '' @ str_exn env e)) of
                    None \<Rightarrow> tasks st3 @ [ErrorEvent (py ''Refinement failed: '' @ str_exn env e)]
                  | Some e' \<Rightarrow> tasks st3)"
      by (simp add: r rs try_pass_def show_error_def schedule_broadcast_def split: option.split)
  next
    fix e st3
    assume s: "stages env refiner req st2 = (Inl e, st3)" and h: "is_HTTPException e"
    from h obtain code d where "e = HTTPException code d" by (cases e) simp_all
    with s show "refine env req st = (Inl e, st3)"
      by (simp add: r run_stages_def)
  next
    fix response
    assume "fst (refine env req st) = Inr response"
    then have "fst (run_stages env refiner req st2) = Inr response" by (simp add: r)
    then obtain st' where s: "stages env refiner req st2 = (Inr response, st')"
      using run_stages_response by blast
    note f = stages_response [OF s]
    show "refine_document env refiner (manuscriptText req) = Inr (processedText response)"
      using f by simp
    show "generate_bibliography_text env refiner = Inr (bibliographyText response)"
      using f by simp
    show "generate_bibtex_content env refiner = Inr (bibtex response)"
      using f by simp
  qed
qed

text \<open>
  C8 as stated fails. \<open>refine_document\<close> raises an \<open>HTTPException\<close> with status
  429: the caller gets that exception, not one of status 500, and the only broadcast
  scheduled is the first progress event; there is no error event.
\<close>

theorem refine_stage_http_exception_passes:
  "fst (refine (sample_env\<lparr>refine_document := (\<lambda>r t. Inl (HTTPException 429 (py ''busy'')))\<rparr>)
          \<lparr>manuscriptText = py ''abc'', maxResults = Some 10, noCache = Some True\<rparr> sample_state)
     = Inl (HTTPException 429 (py ''busy'')) \<and>
   tasks (snd (refine (sample_env\<lparr>refine_document := (\<lambda>r t. Inl (HTTPException 429 (py ''busy'')))\<rparr>)
          \<lparr>manuscriptText = py ''abc'', maxResults = Some 10, noCache = Some True\<rparr> sample_state))
     = [ProgressEvent 0 (py ''Starting DeepSearch refinement...'')]"
  by (simp add: handler_defs sample_defs)

theorem refine_stage_failure_witness:
  "fst (refine (sample_env\<lparr>refine_document := (\<lambda>r t. Inl (OtherError (py ''boom'')))\<rparr>)
          \<lparr>manuscriptText = py ''abc'', maxResults = Some 10, noCache = Some True\<rparr> sample_state)
     = Inl (HTTPException 500 (py ''boom'')) \<and>
   tasks (snd (refine (sample_env\<lparr>refine_document := (\<lambda>r t. Inl (OtherError (py ''boom'')))\<rparr>)
          \<lparr>manuscriptText = py ''abc'', maxResults = Some 10, noCache = Some True\<rparr> sample_state))
     = [ProgressEvent 0 (py ''Starting DeepSearch refinement...''),
        ErrorEvent (py ''Refinement failed: boom'')] \<and>
   fst (refine (sample_env\<lparr>refine_document := (\<lambda>r t. Inl (OtherError (py ''boom''))),
                          create_task := (\<lambda>ev. case ev of ErrorEvent m \<Rightarrow> Some (OtherError (py ''no loop''))
                                                | _ \<Rightarrow> None)\<rparr>)
          \<lparr>manuscriptText = py ''abc'', maxResults = Some 10, noCache = Some True\<rparr> sample_state)
     = Inl (HTTPException 500 (py ''boom'')) \<and>
   tasks (snd (refine (sample_env\<lparr>refine_document := (\<lambda>r t. Inl (OtherError (py ''boom''))),
                          create_task := (\<lambda>ev. case ev of ErrorEvent m \<Rightarrow> Some (OtherError (py ''no loop''))
                                                | _ \<Rightarrow> None)\<rparr>)
          \<lparr>manuscriptText = py ''abc'', maxResults = Some 10, noCache = Some True\<rparr> sample_state))
     = [ProgressEvent 0 (py ''Starting DeepSearch refinement...'')]"
proof -
  define req where "req = \<lparr>manuscriptText = py ''abc'', maxResults = Some 10, noCache = Some True\<rparr>"
  define envA where "envA = sample_env\<lparr>refine_document := (\<lambda>r t. Inl (OtherError (py ''boom'')))\<rparr>"
  define envB where "envB = envA\<lparr>create_task := (\<lambda>ev. case ev of ErrorEvent m \<Rightarrow> Some (OtherError (py ''no loop''))
                                                | _ \<Rightarrow> None)\<rparr>"
  define sv where "sv = [(''search_settings'', Inr [(''max_results'', PyInt 10), (''timeout'', PyInt 30)]),
             (''privacy_settings'', Inr [(''cache_enabled'', PyBool False)]),
             (''version'', Inl (PyInt 1))]"
  define refiner where "refiner = \<lparr>refiner_settings = sv, refiner_nlp_processor = sv\<rparr>"
  have h1: "manuscriptText req \<noteq> [] \<and> strip (manuscriptText req) \<noteq> []"
    by (simp add: req_def sample_defs)
  have acqA: "acquire_refiner envA req sample_state
                = (Inr refiner, snd (acquire_refiner envA req sample_state))"
    by (simp add: prod_eq_iff handler_defs sample_defs req_def envA_def refiner_def sv_def)
  have acqB: "acquire_refiner envB req sample_state
                = (Inr refiner, snd (acquire_refiner envB req sample_state))"
    by (simp add: prod_eq_iff handler_defs sample_defs req_def envB_def envA_def refiner_def sv_def)
  have stA: "stages envA refiner req (snd (acquire_refiner envA req sample_state))
               = (Inl (OtherError (py ''boom'')),
                  snd (stages envA refiner req (snd (acquire_refiner envA req sample_state))))"
    by (simp add: prod_eq_iff stages_def update_progress_def schedule_broadcast_def envA_def sample_env_def)
  have stB: "stages envB refiner req (snd (acquire_refiner envB req sample_state))
               = (Inl (OtherError (py ''boom'')),
                  snd (stages envB refiner req (snd (acquire_refiner envB req sample_state))))"
    by (simp add: prod_eq_iff stages_def update_progress_def schedule_broadcast_def envB_def envA_def sample_env_def)
  note tA = refine_stage_failure [OF h1 acqA, THEN conjunct1, rule_format, OF stA, THEN conjunct1, rule_format]
  note tB = refine_stage_failure [OF h1 acqB, THEN conjunct1, rule_format, OF stB, THEN conjunct1, rule_format]
  have tasksA: "tasks (snd (stages envA refiner req (snd (acquire_refiner envA req sample_state))))
                  = [ProgressEvent 0 (py ''Starting DeepSearch refinement...'')]"
    by (simp add: handler_defs sample_defs req_def envA_def)
  have tasksB: "tasks (snd (stages envB refiner req (snd (acquire_refiner envB req sample_state))))
                  = [ProgressEvent 0 (py ''Starting DeepSearch refinement...'')]"
    by (simp add: handler_defs sample_defs req_def envB_def envA_def)
  have strA: "str_exn envA (OtherError (py ''boom'')) = py ''boom''"
    and strB: "str_exn envB (OtherError (py ''boom'')) = py ''boom''"
    by (simp_all add: envB_def envA_def sample_env_def)
  have cA: "create_task envA (ErrorEvent m) = None"
    and cB: "create_task envB (ErrorEvent m) = Some (OtherError (py ''no loop''))" for m
    by (simp_all add: envB_def envA_def sample_env_def)
  have cat: "py ''Refinement failed: '' @ py ''boom'' = py ''Refinement failed: boom''"
    by (simp add: py_def)
  show ?thesis
    using tA tB
    by (simp add: req_def [symmetric] envA_def [symmetric] envB_def [symmetric]
          tasksA tasksB strA strB cA cB cat)
qed

subsection \<open>One processor for all requests\<close>

lemma refine_keeps_processor:
  assumes "nlp_processor st = Some processor"
  shows "nlp_processor (snd (refine env req st)) = Some processor"
proof (cases "manuscriptText req = [] \<or> strip (manuscriptText req) = []")
  case True
  with assms show ?thesis by (auto simp: refine_def)
next
  case False
  then have "manuscriptText req \<noteq> [] \<and> strip (manuscriptText req) \<noteq> []" by simp
  from refine_processor [OF this, of env st] assms show ?thesis by simp
qed

lemma serve_keeps_processor:
  "nlp_processor st = Some processor \<Longrightarrow> nlp_processor (serve reqs st) = Some processor"
proof (induction reqs arbitrary: st)
  case Nil
  then show ?case by simp
next
  case (Cons r reqs)
  obtain env req where r: "r = (env, req)" by (cases r)
  from Cons.prems have "nlp_processor (snd (refine env req st)) = Some processor"
    by (rule refine_keeps_processor)
  then show ?case by (simp add: r Cons.IH)
qed

lemma job_settings_env:
  "job_settings (env\<lparr>NLPProcessor := other\<rparr>) req st = job_settings env req st"
proof -
  have rs: "request_settings (env\<lparr>NLPProcessor := other\<rparr>) req st = request_settings env req st"
    by (simp add: request_settings_def)
  have sd: "\<And>settings st1. settings_or_default (env\<lparr>NLPProcessor := other\<rparr>) settings st1
                = settings_or_default env settings st1"
    by (simp add: settings_or_default_def split: option.split)
  show ?thesis unfolding job_settings_def rs sd ..
qed

lemma acquire_refiner_job:
  "acquire_refiner env req st =
     (case request_settings env req st of
        (settings, st1) \<Rightarrow>
     (case nlp_processor st of
        None \<Rightarrow>
          (case NLPProcessor env (job_settings env req st) of
             Inl e \<Rightarrow>
               (Inl (HTTPException 503 (py ''NLP processor unavailable: '' @ str_exn env e)), st1)
           | Inr processor \<Rightarrow>
               (case DocumentRefiner env (job_settings env req st) processor of
                  Some e \<Rightarrow> (Inl e, st1\<lparr>nlp_processor := Some processor\<rparr>)
                | None \<Rightarrow>
                    (Inr \<lparr>refiner_settings = job_settings env req st,
                          refiner_nlp_processor = processor\<rparr>,
                     st1\<lparr>nlp_processor := Some processor\<rparr>)))
      | Some processor \<Rightarrow>
          (case DocumentRefiner env (job_settings env req st) processor of
             Some e \<Rightarrow> (Inl e, st1)
           | None \<Rightarrow>
               (Inr \<lparr>refiner_settings = job_settings env req st,
                     refiner_nlp_processor = processor\<rparr>, st1))))"
proof -
  obtain settings st1 where rs: "request_settings env req st = (settings, st1)"
    by (cases "request_settings env req st") auto
  show ?thesis
    unfolding acquire_refiner_def rs prod.case get_refiner_job [OF rs] ..
qed

text \<open>
  C10. With no processor cached, a request with text for which \<open>NLPProcessor\<close>
  returns stores that processor in the module global; the constructor is applied to
  the settings of that request, which are the defaults with the request's overrides.
  With a processor cached, every request leaves it in place, and so does every
  sequence of requests; the refiner built for a request holds the cached processor
  next to the request's own settings, and which \<open>NLPProcessor\<close> the module has
  then makes no difference, since it is not called.
\<close>

theorem processor_built_once_then_reused:
  "(manuscriptText req \<noteq> [] \<and> strip (manuscriptText req) \<noteq> [] \<and>
    nlp_processor st = None \<and> NLPProcessor env (job_settings env req st) = Inr processor \<longrightarrow>
      nlp_processor (snd (refine env req st)) = Some processor \<and>
      (defaults_allocated env st \<and> defaults_unshared env st \<longrightarrow>
         job_settings env req st = expected_settings req (read_settings st (DEFAULT_SETTINGS env)))) \<and>
   (nlp_processor st = Some processor \<longrightarrow>
      nlp_processor (snd (refine env req st)) = Some processor \<and>
      nlp_processor (serve reqs st) = Some processor \<and>
      (\<forall>refiner st2. acquire_refiner env req st = (Inr refiner, st2) \<longrightarrow>
         refiner_nlp_processor refiner = processor \<and>
         refiner_settings refiner = job_settings env req st \<and>
         nlp_processor st2 = Some processor) \<and>
      acquire_refiner (env\<lparr>NLPProcessor := other\<rparr>) req st = acquire_refiner env req st)"
proof (intro conjI impI allI)
  assume a: "manuscriptText req \<noteq> [] \<and> strip (manuscriptText req) \<noteq> [] \<and>
    nlp_processor st = None \<and> NLPProcessor env (job_settings env req st) = Inr processor"
  then have nb: "manuscriptText req \<noteq> [] \<and> strip (manuscriptText req) \<noteq> []" by simp
  show "nlp_processor (snd (refine env req st)) = Some processor"
    using refine_processor [OF nb, of env st] a by simp
next
  assume "defaults_allocated env st \<and> defaults_unshared env st"
  then show "job_settings env req st = expected_settings req (read_settings st (DEFAULT_SETTINGS env))"
    by (simp add: job_settings_expected)
next
  assume "nlp_processor st = Some processor"
  then show "nlp_processor (snd (refine env req st)) = Some processor"
    by (rule refine_keeps_processor)
next
  assume "nlp_processor st = Some processor"
  then show "nlp_processor (serve reqs st) = Some processor"
    by (rule serve_keeps_processor)
next
  fix refiner st2
  assume w: "nlp_processor st = Some processor"
    and acq: "acquire_refiner env req st = (Inr refiner, st2)"
  obtain settings st1 where rs: "request_settings env req st = (settings, st1)"
    by (cases "request_settings env req st") auto
  have n1: "nlp_processor st1 = Some processor"
    using request_settings_frame(4) [OF rs] w by simp
  have "refiner = \<lparr>refiner_settings = job_settings env req st, refiner_nlp_processor = processor\<rparr>
          \<and> st2 = st1"
    using acq unfolding acquire_refiner_job rs prod.case
    by (auto simp: w split: option.splits)
  with n1 show "refiner_nlp_processor refiner = processor"
    and "refiner_settings refiner = job_settings env req st"
    and "nlp_processor st2 = Some processor"
    by simp_all
next
  assume w: "nlp_processor st = Some processor"
  have rs: "request_settings (env\<lparr>NLPProcessor := other\<rparr>) req st = request_settings env req st"
    by (simp add: request_settings_def)
  show "acquire_refiner (env\<lparr>NLPProcessor := other\<rparr>) req st = acquire_refiner env req st"
    unfolding acquire_refiner_job job_settings_env rs by (simp add: w)
qed

theorem processor_built_once_then_reused_witness:
  "nlp_processor
     (snd (refine sample_env \<lparr>manuscriptText = py ''abc'', maxResults = Some 10, noCache = Some True\<rparr>
             sample_state))
     = Some [(''search_settings'', Inr [(''max_results'', PyInt 10), (''timeout'', PyInt 30)]),
             (''privacy_settings'', Inr [(''cache_enabled'', PyBool False)]),
             (''version'', Inl (PyInt 1))] \<and>
   nlp_processor
     (snd (refine sample_env \<lparr>manuscriptText = py ''xyz'', maxResults = Some 50, noCache = None\<rparr>
        (snd (refine sample_env \<lparr>manuscriptText = py ''abc'', maxResults = Some 10, noCache = Some True\<rparr>
                sample_state))))
     = Some [(''search_settings'', Inr [(''max_results'', PyInt 10), (''timeout'', PyInt 30)]),
             (''privacy_settings'', Inr [(''cache_enabled'', PyBool False)]),
             (''version'', Inl (PyInt 1))] \<and>
   fst (acquire_refiner sample_env \<lparr>manuscriptText = py ''xyz'', maxResults = Some 50, noCache = None\<rparr>
        (snd (refine sample_env \<lparr>manuscriptText = py ''abc'', maxResults = Some 10, noCache = Some True\<rparr>
                sample_state)))
     = Inr \<lparr>refiner_settings =
              [(''search_settings'', Inr [(''max_results'', PyInt 50), (''timeout'', PyInt 30)]),
               (''privacy_settings'', Inr [(''cache_enabled'', PyBool True)]),
               (''version'', Inl (PyInt 1))],
            refiner_nlp_processor =
              [(''search_settings'', Inr [(''max_results'', PyInt 10), (''timeout'', PyInt 30)]),
               (''privacy_settings'', Inr [(''cache_enabled'', PyBool False)]),
               (''version'', Inl (PyInt 1))]\<rparr>"
proof -
  define req1 where "req1 = \<lparr>manuscriptText = py ''abc'', maxResults = Some 10, noCache = Some True\<rparr>"
  define req2 where "req2 = \<lparr>manuscriptText = py ''xyz'', maxResults = Some 50, noCache = None\<rparr>"
  define sv10 where "sv10 = [(''search_settings'', Inr [(''max_results'', PyInt 10), (''timeout'', PyInt 30)]),
             (''privacy_settings'', Inr [(''cache_enabled'', PyBool False)]),
             (''version'', Inl (PyInt 1))]"
  define sv50 where "sv50 = [(''search_settings'', Inr [(''max_results'', PyInt 50), (''timeout'', PyInt 30)]),
               (''privacy_settings'', Inr [(''cache_enabled'', PyBool True)]),
               (''version'', Inl (PyInt 1))]"
  define st1 where "st1 = snd (refine sample_env req1 sample_state)"
  have js1: "job_settings sample_env req1 sample_state = sv10"
    by (simp add: handler_defs sample_defs req1_def sv10_def)
  have h: "manuscriptText req1 \<noteq> [] \<and> strip (manuscriptText req1) \<noteq> [] \<and>
    nlp_processor sample_state = None \<and>
    NLPProcessor sample_env (job_settings sample_env req1 sample_state) = Inr sv10"
    by (simp add: js1) (simp add: req1_def sample_defs)
  note first = processor_built_once_then_reused
      [where req = req1 and st = sample_state and env = sample_env and processor = sv10,
       THEN conjunct1, rule_format, OF h, THEN conjunct1]
  have warm: "nlp_processor st1 = Some sv10"
    using first by (simp add: st1_def)
  note later = processor_built_once_then_reused
      [where req = req2 and st = st1 and env = sample_env and processor = sv10,
       THEN conjunct2, rule_format, OF warm]
  have acq: "acquire_refiner sample_env req2 st1
               = (fst (acquire_refiner sample_env req2 st1), snd (acquire_refiner sample_env req2 st1))"
    by simp
  have js2: "job_settings sample_env req2 st1 = sv50"
    by (simp add: st1_def handler_defs sample_defs req1_def req2_def sv50_def)
  have built: "\<exists>refiner. fst (acquire_refiner sample_env req2 st1) = Inr refiner"
    unfolding acquire_refiner_job
    by (simp add: warm sample_env_def split: prod.split)
  then obtain refiner where r: "fst (acquire_refiner sample_env req2 st1) = Inr refiner" ..
  have "acquire_refiner sample_env req2 st1 = (Inr refiner, snd (acquire_refiner sample_env req2 st1))"
    using r by (simp add: prod_eq_iff)
  with later have "refiner_nlp_processor refiner = sv10 \<and> refiner_settings refiner = sv50"
    by (simp add: js2)
  then have "refiner = \<lparr>refiner_settings = sv50, refiner_nlp_processor = sv10\<rparr>" by simp
  with r first later show ?thesis
    by (simp add: st1_def [symmetric] req1_def [symmetric] req2_def [symmetric]
          sv10_def [symmetric] sv50_def [symmetric])
qed

end
